theory Spec2Isabelle
  imports Main "HOL-Library.Sublist"
begin

section \<open>Constants (lib/utils.js)\<close>

type_synonym path = string

definition STATE_FILENAME :: string where
  "STATE_FILENAME = ''.scaffolder-state.json''"

definition REGISTRY_URL :: string where
  "REGISTRY_URL = ''https://raw.githubusercontent.com/CBDB-Code/UI_Shadcn/main/registry.json''"

definition TEMPLATES :: "(string \<times> string list) list" where
  "TEMPLATES =
    [(''minimal'', [''button'', ''card'', ''badge'', ''input'']),
     (''form'', [''button'', ''card'', ''input'', ''label'', ''form'',
                 ''select'', ''checkbox'', ''radio-group'', ''textarea'', ''switch'']),
     (''dashboard'', [''button'', ''card'', ''badge'', ''input'', ''tabs'', ''table'',
                      ''chart'', ''sidebar'', ''dropdown-menu'', ''avatar'', ''separator'',
                      ''skeleton''])]"

definition TIMEOUT_viteCreate :: int where "TIMEOUT_viteCreate = 120000"
definition TIMEOUT_npmInstall :: int where "TIMEOUT_npmInstall = 120000"
definition TIMEOUT_shadcnInit :: int where "TIMEOUT_shadcnInit = 60000"
definition TIMEOUT_componentInstall :: int where "TIMEOUT_componentInstall = 300000"

definition EXIT_SUCCESS :: nat where "EXIT_SUCCESS = 0"
definition EXIT_FAILURE :: nat where "EXIT_FAILURE = 1"

section \<open>The persisted state (lib/state.js)\<close>

datatype status = Pending | Running | Done | Failed

datatype step = ViteCreate | NpmInstall | ShadcnInit | ComponentInstall | Verification

text \<open>The \<open>steps\<close> object has the five fixed keys of \<open>createInitialState\<close>.\<close>

record step_table =
  viteCreate :: status
  npmInstall :: status
  shadcnInit :: status
  componentInstall :: status
  verification :: status

fun get_step :: "step \<Rightarrow> step_table \<Rightarrow> status" where
  "get_step ViteCreate t = viteCreate t"
| "get_step NpmInstall t = npmInstall t"
| "get_step ShadcnInit t = shadcnInit t"
| "get_step ComponentInstall t = componentInstall t"
| "get_step Verification t = verification t"

fun set_step :: "step \<Rightarrow> status \<Rightarrow> step_table \<Rightarrow> step_table" where
  "set_step ViteCreate s t = t\<lparr>viteCreate := s\<rparr>"
| "set_step NpmInstall s t = t\<lparr>npmInstall := s\<rparr>"
| "set_step ShadcnInit s t = t\<lparr>shadcnInit := s\<rparr>"
| "set_step ComponentInstall s t = t\<lparr>componentInstall := s\<rparr>"
| "set_step Verification s t = t\<lparr>verification := s\<rparr>"

definition all_steps :: "step list" where
  "all_steps = [ViteCreate, NpmInstall, ShadcnInit, ComponentInstall, Verification]"

text \<open>
  The error messages of the source are template strings; each constructor stands for one
  template and carries the interpolated values.
\<close>

datatype message =
    TimedOutMsg step int
  | ExitCodeMsg step "int option"
  | ArtifactMissingMsg step
  | SpawnFailedMsg string string
  | InterruptedMsg string
  | VerificationMsg "string list"

text \<open>Timestamps are milliseconds read from the clock (the source stores them as ISO strings).\<close>

record scaffold_state =
  version :: nat
  projectName :: string
  projectPath :: path
  template :: string
  components :: "string list"
  startedAt :: int
  updatedAt :: int
  freshCreation :: bool
  steps :: step_table
  installedComponents :: "string list"
  failedComponents :: "string list"
  error :: "message option"

definition createInitialState :: "string \<Rightarrow> path \<Rightarrow> string \<Rightarrow> string list \<Rightarrow> int \<Rightarrow> scaffold_state" where
  "createInitialState pName pPath tmpl comps now =
    \<lparr>version = 1, projectName = pName, projectPath = pPath, template = tmpl,
     components = comps, startedAt = now, updatedAt = now, freshCreation = True,
     steps = \<lparr>viteCreate = Pending, npmInstall = Pending, shadcnInit = Pending,
              componentInstall = Pending, verification = Pending\<rparr>,
     installedComponents = [], failedComponents = [], error = None\<rparr>"

section \<open>The file system, the clock and the trace of effects\<close>

text \<open>
  A file holds the JSON serialisation of a state (\<open>JSON.stringify\<close> of a state, which
  \<open>JSON.parse\<close> reads back), the JSON value \<open>null\<close>, or text that \<open>JSON.parse\<close> rejects,
  such as a truncated or empty document. \<open>JSON.parse\<close> checks no schema; the other
  well-formed JSON values, on which \<open>main\<close> goes on with an object that lacks fields, are not
  modelled.
\<close>

datatype content = Doc scaffold_state | JsonNull | Text string

datatype node = File content | Dir

datatype exn = ENOENT path | EISDIR path | JsonSyntaxError

text \<open>Every effectful primitive the program calls is recorded, in order, when it is called.\<close>

datatype event =
    EvSpawn string "string list" path int
  | EvWriteFile path content
  | EvRename path path
  | EvUnlink path
  | EvRm path

record world =
  fs :: "path \<Rightarrow> node option"
  writable :: "path \<Rightarrow> bool"
  clock :: int
  trace :: "event list"

text \<open>
  The parent directory, and \<open>path.join\<close> of an absolute, normalised directory (as
  \<open>path.resolve\<close> hands it to the program) with a name or a relative path. The names
  \<open>.\<close> and \<open>..\<close> and the root directory, which ends with the separator, are normalised
  as \<open>path.join\<close> does; a second argument with \<open>.\<close> or \<open>..\<close> segments inside it is not.
\<close>

definition dirname :: "path \<Rightarrow> path" where
  "dirname p = rev (drop 1 (dropWhile (\<lambda>c. c \<noteq> CHR ''/'') (rev p)))"

definition path_join :: "path \<Rightarrow> string \<Rightarrow> path" where
  "path_join d f =
    (if f = [] \<or> f = ''.'' then d
     else if f = ''..'' then (if dirname d = [] then ''/'' else dirname d)
     else if d \<noteq> [] \<and> last d = CHR ''/'' then d @ f
     else d @ ''/'' @ f)"

definition emit :: "event \<Rightarrow> world \<Rightarrow> world" where
  "emit e w = w\<lparr>trace := trace w @ [e]\<rparr>"

definition existsSync :: "path \<Rightarrow> world \<Rightarrow> bool" where
  "existsSync p w = (fs w p \<noteq> None)"

definition isDirectory :: "path \<Rightarrow> world \<Rightarrow> bool" where
  "isDirectory p w = (fs w p = Some Dir)"

text \<open>
  The mutating primitives fail for structural reasons only (a missing parent directory, a
  directory where a file is expected); permissions are consulted by \<open>accessSync\<close> alone.
\<close>

definition writeFileSync :: "path \<Rightarrow> content \<Rightarrow> world \<Rightarrow> exn option \<times> world" where
  "writeFileSync p c w =
    (let w' = emit (EvWriteFile p c) w in
     if fs w (dirname p) \<noteq> Some Dir then (Some (ENOENT p), w')
     else if fs w p = Some Dir then (Some (EISDIR p), w')
     else (None, w'\<lparr>fs := (fs w)(p \<mapsto> File c)\<rparr>))"

text \<open>\<open>renameSync\<close> of a file; the program never renames a directory.\<close>

definition renameSync :: "path \<Rightarrow> path \<Rightarrow> world \<Rightarrow> exn option \<times> world" where
  "renameSync a b w =
    (let w' = emit (EvRename a b) w in
     case fs w a of
       None \<Rightarrow> (Some (ENOENT a), w')
     | Some Dir \<Rightarrow> (Some (EISDIR a), w')
     | Some (File c) \<Rightarrow>
         if fs w (dirname b) \<noteq> Some Dir then (Some (ENOENT b), w')
         else if fs w b = Some Dir then (Some (EISDIR b), w')
         else (None, w'\<lparr>fs := (fs w)(a := None, b \<mapsto> File c)\<rparr>))"

definition unlinkSync :: "path \<Rightarrow> world \<Rightarrow> exn option \<times> world" where
  "unlinkSync p w =
    (let w' = emit (EvUnlink p) w in
     case fs w p of
       None \<Rightarrow> (Some (ENOENT p), w')
     | Some Dir \<Rightarrow> (Some (EISDIR p), w')
     | Some (File c) \<Rightarrow> (None, w'\<lparr>fs := (fs w)(p := None)\<rparr>))"

text \<open>\<open>fs.rmSync(p, {recursive: true, force: true})\<close>: \<open>p\<close> and everything below it.\<close>

definition rmSync :: "path \<Rightarrow> world \<Rightarrow> world" where
  "rmSync p w =
    (emit (EvRm p) w)\<lparr>fs := (\<lambda>q. if q = p \<or> prefix (p @ ''/'') q then None else fs w q)\<rparr>"

definition readFileSync :: "path \<Rightarrow> world \<Rightarrow> exn + content" where
  "readFileSync p w =
    (case fs w p of
       None \<Rightarrow> Inl (ENOENT p)
     | Some Dir \<Rightarrow> Inl (EISDIR p)
     | Some (File c) \<Rightarrow> Inr c)"

definition JSON_stringify :: "scaffold_state \<Rightarrow> content" where
  "JSON_stringify s = Doc s"

definition JSON_parse :: "content \<Rightarrow> exn + scaffold_state option" where
  "JSON_parse c =
    (case c of Doc s \<Rightarrow> Inr (Some s) | JsonNull \<Rightarrow> Inr None | Text t \<Rightarrow> Inl JsonSyntaxError)"

section \<open>The checkpoint store (lib/state.js)\<close>

definition stateFilePath :: "path \<Rightarrow> path" where
  "stateFilePath pPath = path_join pPath STATE_FILENAME"

definition tmpFilePath :: "path \<Rightarrow> path" where
  "tmpFilePath pPath = stateFilePath pPath @ ''.tmp''"

text \<open>
  \<open>saveState\<close> returns the exception it throws, if any, the state object as mutated (its
  \<open>updatedAt\<close> is refreshed before anything is written), and the world it leaves.
\<close>

definition saveState :: "path \<Rightarrow> scaffold_state \<Rightarrow> world \<Rightarrow> (exn option \<times> scaffold_state) \<times> world" where
  "saveState pPath state w =
    (let state' = state\<lparr>updatedAt := clock w\<rparr>;
         filePath = stateFilePath pPath;
         tmpPath = filePath @ ''.tmp''
     in case writeFileSync tmpPath (JSON_stringify state') w of
          (Some e, w1) \<Rightarrow> ((Some e, state'), w1)
        | (None, w1) \<Rightarrow>
            (case renameSync tmpPath filePath w1 of (r, w2) \<Rightarrow> ((r, state'), w2)))"

text \<open>
  The world a crash leaves on disk at each point of \<open>saveState\<close> before the rename: before
  the write, during it (the temporary file holds some truncated text, possibly empty), and
  between the completed write and the rename.
\<close>

datatype crash_point = BeforeWrite | DuringWrite string | BeforeRename

fun saveState_crash :: "crash_point \<Rightarrow> path \<Rightarrow> scaffold_state \<Rightarrow> world \<Rightarrow> world" where
  "saveState_crash BeforeWrite pPath state w = w"
| "saveState_crash (DuringWrite t) pPath state w =
     snd (writeFileSync (stateFilePath pPath @ ''.tmp'') (Text t) w)"
| "saveState_crash BeforeRename pPath state w =
     snd (writeFileSync (stateFilePath pPath @ ''.tmp'')
            (JSON_stringify (state\<lparr>updatedAt := clock w\<rparr>)) w)"

text \<open>The \<open>extra\<close> objects that the callers of \<open>updateStep\<close> pass to \<open>Object.assign\<close>.\<close>

datatype extra =
    NoExtra
  | ErrorExtra message
  | ComponentsExtra "string list" "string list"

fun assign_extra :: "extra \<Rightarrow> scaffold_state \<Rightarrow> scaffold_state" where
  "assign_extra NoExtra s = s"
| "assign_extra (ErrorExtra m) s = s\<lparr>error := Some m\<rparr>"
| "assign_extra (ComponentsExtra inst fl) s = s\<lparr>installedComponents := inst, failedComponents := fl\<rparr>"

definition updateStep ::
  "scaffold_state \<Rightarrow> path \<Rightarrow> step \<Rightarrow> status \<Rightarrow> extra \<Rightarrow> world \<Rightarrow> (exn option \<times> scaffold_state) \<times> world" where
  "updateStep state pPath stepName st ex w =
    saveState pPath (assign_extra ex (state\<lparr>steps := set_step stepName st (steps state)\<rparr>)) w"

definition removeState :: "path \<Rightarrow> world \<Rightarrow> exn option \<times> world" where
  "removeState pPath w =
    (let filePath = stateFilePath pPath in
     if existsSync filePath w then unlinkSync filePath w else (None, w))"

section \<open>The command runner and the steps (lib/executor.js)\<close>

text \<open>
  What the environment does with a spawned command: the child closes with an exit code and a
  signal, the spawn itself fails, or a termination signal reaches this process while it
  awaits the child. The environment also decides what the command does to the file system
  and how much time passes; the program's own synchronous code takes no time.
\<close>

datatype outcome = Closed "int option" "string option" | SpawnError string | Signalled string

type_synonym runner = "string \<Rightarrow> string list \<Rightarrow> path \<Rightarrow> int \<Rightarrow> world \<Rightarrow> outcome \<times> world"

record run_result =
  rr_code :: "int option"
  rr_signal :: "string option"
  rr_timedOut :: bool

datatype 'a answer = Resolved 'a | Rejected message | Interrupted string

definition runCommand ::
  "runner \<Rightarrow> string \<Rightarrow> string list \<Rightarrow> path \<Rightarrow> int \<Rightarrow> world \<Rightarrow> run_result answer \<times> world" where
  "runCommand run command args cwd timeout w =
    (let w1 = emit (EvSpawn command args cwd timeout) w in
     case run command args cwd timeout w1 of
       (out, w2) \<Rightarrow>
         (case out of
            Closed c s \<Rightarrow>
              Resolved \<lparr>rr_code = c, rr_signal = s,
                        rr_timedOut = (s = Some ''SIGTERM'' \<and> c = None)\<rparr>
          | SpawnError m \<Rightarrow> Rejected (SpawnFailedMsg command m)
          | Signalled sg \<Rightarrow> Interrupted sg,
          w1\<lparr>fs := fs w2, clock := clock w2\<rparr>))"

datatype step_result = Success | Failure message

text \<open>
  The three single-command steps return \<open>Inl\<close> of the signal when the process is interrupted
  while awaiting the command, and \<open>Inr\<close> of their \<open>{success, error}\<close> object otherwise.
\<close>

definition createViteProject ::
  "runner \<Rightarrow> string \<Rightarrow> path \<Rightarrow> int \<Rightarrow> world \<Rightarrow> (string + step_result) \<times> world" where
  "createViteProject run pName targetDir timeout w =
    (case runCommand run ''npx'' [''create-vite@latest'', pName, ''--template'', ''react-ts'']
            targetDir timeout w of
       (Interrupted sg, w') \<Rightarrow> (Inl sg, w')
     | (Rejected m, w') \<Rightarrow> (Inr (Failure m), w')
     | (Resolved r, w') \<Rightarrow>
         (Inr (if rr_timedOut r then Failure (TimedOutMsg ViteCreate timeout)
               else if rr_code r \<noteq> Some 0 then Failure (ExitCodeMsg ViteCreate (rr_code r))
               else if \<not> existsSync (path_join (path_join targetDir pName) ''package.json'') w'
                 then Failure (ArtifactMissingMsg ViteCreate)
               else Success), w'))"

definition npmInstall_cmd :: "runner \<Rightarrow> path \<Rightarrow> int \<Rightarrow> world \<Rightarrow> (string + step_result) \<times> world" where
  "npmInstall_cmd run pPath timeout w =
    (case runCommand run ''npm'' [''install''] pPath timeout w of
       (Interrupted sg, w') \<Rightarrow> (Inl sg, w')
     | (Rejected m, w') \<Rightarrow> (Inr (Failure m), w')
     | (Resolved r, w') \<Rightarrow>
         (Inr (if rr_timedOut r then Failure (TimedOutMsg NpmInstall timeout)
               else if rr_code r \<noteq> Some 0 then Failure (ExitCodeMsg NpmInstall (rr_code r))
               else if \<not> existsSync (path_join pPath ''node_modules'') w'
                 then Failure (ArtifactMissingMsg NpmInstall)
               else Success), w'))"

definition initShadcn :: "runner \<Rightarrow> path \<Rightarrow> int \<Rightarrow> world \<Rightarrow> (string + step_result) \<times> world" where
  "initShadcn run pPath timeout w =
    (case runCommand run ''npx''
            [''shadcn@latest'', ''init'', ''--yes'', ''--defaults'', ''--force'', ''--cwd'', pPath]
            pPath timeout w of
       (Interrupted sg, w') \<Rightarrow> (Inl sg, w')
     | (Rejected m, w') \<Rightarrow> (Inr (Failure m), w')
     | (Resolved r, w') \<Rightarrow>
         (Inr (if rr_timedOut r then Failure (TimedOutMsg ShadcnInit timeout)
               else if rr_code r \<noteq> Some 0 then Failure (ExitCodeMsg ShadcnInit (rr_code r))
               else Success), w'))"

subsection \<open>The installer\<close>

definition add_args :: "path \<Rightarrow> string list \<Rightarrow> string list" where
  "add_args pPath names =
    [''shadcn@latest'', ''add'', ''--registry'', REGISTRY_URL, ''--yes'', ''--overwrite'',
     ''--cwd'', pPath] @ names"

text \<open>
  The individual fallback, one recursion step per iteration of the \<open>for\<close> loop; \<open>installed\<close>
  and \<open>failed\<close> are the two arrays being pushed to.
\<close>

fun install_loop ::
  "runner \<Rightarrow> path \<Rightarrow> int \<Rightarrow> int \<Rightarrow> string list \<Rightarrow> string list \<Rightarrow> string list \<Rightarrow> world
    \<Rightarrow> (string + string list \<times> string list) \<times> world" where
  "install_loop run pPath timeout startTime [] installed failed w = (Inr (installed, failed), w)"
| "install_loop run pPath timeout startTime (name # rest) installed failed w =
    (let elapsed = clock w - startTime;
         remaining = timeout - elapsed
     in if remaining \<le> 5000
        then install_loop run pPath timeout startTime rest installed (failed @ [name]) w
        else
          (let perComponentTimeout = min 60000 remaining in
           case runCommand run ''npx'' (add_args pPath [name]) pPath perComponentTimeout w of
             (Interrupted sg, w') \<Rightarrow> (Inl sg, w')
           | (Rejected m, w') \<Rightarrow>
               install_loop run pPath timeout startTime rest installed (failed @ [name]) w'
           | (Resolved r, w') \<Rightarrow>
               if rr_code r = Some 0
               then install_loop run pPath timeout startTime rest (installed @ [name]) failed w'
               else install_loop run pPath timeout startTime rest installed (failed @ [name]) w'))"

record install_result =
  ir_success :: bool
  ir_installed :: "string list"
  ir_failed :: "string list"

definition install_fallback ::
  "runner \<Rightarrow> path \<Rightarrow> int \<Rightarrow> int \<Rightarrow> string list \<Rightarrow> world \<Rightarrow> (string + install_result) \<times> world" where
  "install_fallback run pPath timeout startTime comps w =
    (case install_loop run pPath timeout startTime comps [] [] w of
       (Inl sg, w') \<Rightarrow> (Inl sg, w')
     | (Inr (installed, failed), w') \<Rightarrow>
         (Inr \<lparr>ir_success = (failed = []), ir_installed = installed, ir_failed = failed\<rparr>, w'))"

definition installComponents ::
  "runner \<Rightarrow> path \<Rightarrow> string list \<Rightarrow> int \<Rightarrow> world \<Rightarrow> (string + install_result) \<times> world" where
  "installComponents run pPath comps timeout w =
    (if comps = [] then (Inr \<lparr>ir_success = True, ir_installed = [], ir_failed = []\<rparr>, w)
     else
       (let startTime = clock w in
        case runCommand run ''npx'' (add_args pPath comps) pPath timeout w of
          (Interrupted sg, w') \<Rightarrow> (Inl sg, w')
        | (Rejected m, w') \<Rightarrow> install_fallback run pPath timeout startTime comps w'
        | (Resolved r, w') \<Rightarrow>
            if rr_code r = Some 0
            then (Inr \<lparr>ir_success = True, ir_installed = comps, ir_failed = []\<rparr>, w')
            else install_fallback run pPath timeout startTime comps w'))"

subsection \<open>Verification and cleanup\<close>

datatype warning = ExpectedNotFound string | ComponentFileNotFound string

record verify_result =
  vr_valid :: bool
  vr_missing :: "string list"
  vr_warnings :: "warning list"

definition verifyProject :: "path \<Rightarrow> string list \<Rightarrow> world \<Rightarrow> verify_result" where
  "verifyProject pPath expectedComponents w =
    (let missing = filter (\<lambda>relPath. \<not> existsSync (path_join pPath relPath) w)
                     [''package.json'', ''node_modules'', ''src'', ''vite.config.ts''];
         warnings1 = map ExpectedNotFound
                       (filter (\<lambda>relPath. \<not> existsSync (path_join pPath relPath) w)
                          [''components.json'', ''src/lib/utils.ts'', ''src/components/ui'']);
         uiDir = path_join pPath ''src/components/ui'';
         warnings2 = (if existsSync uiDir w
                      then map ComponentFileNotFound
                             (filter (\<lambda>name. \<not> existsSync (path_join uiDir (name @ ''.tsx'')) w)
                                expectedComponents)
                      else [])
     in \<lparr>vr_valid = (missing = []), vr_missing = missing, vr_warnings = warnings1 @ warnings2\<rparr>)"

definition cleanup :: "path \<Rightarrow> world \<Rightarrow> world" where
  "cleanup pPath w = (if existsSync pPath w then rmSync pPath w else w)"

section \<open>The preflight validator (lib/validator.js)\<close>

record cli_args =
  cli_projectName :: string
  cli_template :: string
  cli_components :: "string list"
  cli_targetDir :: path

datatype verror =
    NameRequired
  | InvalidName string
  | InvalidTemplate string
  | CustomNeedsComponents
  | TooManyComponents nat
  | InvalidComponentName string
  | DuplicateComponents
  | TargetMissing path
  | TargetNotDirectory path
  | TargetNotWritable path
  | StateCorrupted path
  | DirectoryExists path

record validation =
  valid :: bool
  errors :: "verror list"
  v_projectPath :: path
  resolvedComponents :: "string list"
  existingState :: "scaffold_state option"

definition is_lower :: "char \<Rightarrow> bool" where
  "is_lower c = (c \<in> set ''abcdefghijklmnopqrstuvwxyz'')"

definition is_upper :: "char \<Rightarrow> bool" where
  "is_upper c = (c \<in> set ''ABCDEFGHIJKLMNOPQRSTUVWXYZ'')"

definition is_digit :: "char \<Rightarrow> bool" where
  "is_digit c = (c \<in> set ''0123456789'')"

text \<open>The regular expression \<^verbatim>\<open>/^[a-zA-Z][a-zA-Z0-9._-]*$/\<close>.\<close>

definition project_name_ok :: "string \<Rightarrow> bool" where
  "project_name_ok s =
    (case s of
       [] \<Rightarrow> False
     | c # cs \<Rightarrow> (is_lower c \<or> is_upper c) \<and>
         list_all (\<lambda>d. is_lower d \<or> is_upper d \<or> is_digit d \<or> d \<in> set ''._-'') cs)"

text \<open>The regular expression \<^verbatim>\<open>/^[a-z][a-z0-9-]*$/\<close>.\<close>

definition component_name_ok :: "string \<Rightarrow> bool" where
  "component_name_ok s =
    (case s of
       [] \<Rightarrow> False
     | c # cs \<Rightarrow> is_lower c \<and> list_all (\<lambda>d. is_lower d \<or> is_digit d \<or> d = CHR ''-'') cs)"

text \<open>\<open>[...new Set(xs)]\<close>: the values in the order of their first insertion.\<close>

definition new_Set :: "'a list \<Rightarrow> 'a list" where
  "new_Set xs = foldl (\<lambda>acc x. if x \<in> set acc then acc else acc @ [x]) [] xs"

definition check_name :: "string \<Rightarrow> verror list" where
  "check_name pName =
    (if pName = [] then [NameRequired]
     else if \<not> project_name_ok pName then [InvalidName pName]
     else [])"

definition check_template :: "string \<Rightarrow> verror list" where
  "check_template tmpl =
    (let validTemplates = map fst TEMPLATES @ [''custom'']
     in if tmpl \<notin> set validTemplates then [InvalidTemplate tmpl] else [])"

definition resolve_components :: "string \<Rightarrow> string list \<Rightarrow> verror list \<times> string list" where
  "resolve_components tmpl comps =
    (if tmpl = ''custom'' then
       (if comps = [] then ([CustomNeedsComponents], [])
        else if length comps > 20 then ([TooManyComponents (length comps)], [])
        else
          (let unique = new_Set comps
           in (map InvalidComponentName (filter (\<lambda>name. \<not> component_name_ok name) comps)
                 @ (if length unique \<noteq> length comps then [DuplicateComponents] else []),
               unique)))
     else (case map_of TEMPLATES tmpl of Some cs \<Rightarrow> ([], cs) | None \<Rightarrow> ([], [])))"

definition check_target :: "path \<Rightarrow> world \<Rightarrow> verror list" where
  "check_target dir w =
    (if \<not> existsSync dir w then [TargetMissing dir]
     else (if \<not> isDirectory dir w then [TargetNotDirectory dir] else [])
            @ (if \<not> writable w dir then [TargetNotWritable dir] else []))"

definition check_project_path :: "path \<Rightarrow> world \<Rightarrow> verror list \<times> scaffold_state option" where
  "check_project_path pPath w =
    (if existsSync pPath w then
       (let statePath = path_join pPath STATE_FILENAME
        in if existsSync statePath w then
             (case readFileSync statePath w of
                Inl e \<Rightarrow> ([StateCorrupted statePath], None)
              | Inr raw \<Rightarrow>
                  (case JSON_parse raw of
                     Inl e \<Rightarrow> ([StateCorrupted statePath], None)
                   | Inr parsed \<Rightarrow> ([], parsed)))
           else ([DirectoryExists pPath], None))
     else ([], None))"

text \<open>
  \<open>validateInputs\<close>: the five numbered blocks of the source push their errors in this
  order. The target directory reaches it already resolved by \<open>parseCLIArgs\<close>.
\<close>

definition validateInputs :: "cli_args \<Rightarrow> world \<Rightarrow> validation" where
  "validateInputs a w =
    (let errs1 = check_name (cli_projectName a);
         errs2 = check_template (cli_template a);
         (errs3, resolved) = resolve_components (cli_template a) (cli_components a);
         resolvedTargetDir = cli_targetDir a;
         errs4 = check_target resolvedTargetDir w;
         pPath = path_join resolvedTargetDir
                   (if cli_projectName a = [] then ''unnamed'' else cli_projectName a);
         (errs5, existing) = check_project_path pPath w;
         errs = errs1 @ errs2 @ errs3 @ errs4 @ errs5
     in \<lparr>valid = (errs = []), errors = errs, v_projectPath = pPath,
         resolvedComponents = resolved, existingState = existing\<rparr>)"

section \<open>The pipeline (index.js)\<close>

text \<open>
  How the process ends: its exit code and the state that \<open>printSummary\<close> printed, if it was
  called (it is not on a validation failure, an interrupt or an uncaught exception).
\<close>

datatype proc_exit = Exit (exit_code: nat) (summary: "scaffold_state option")

definition relabel_running :: "step_table \<Rightarrow> step_table" where
  "relabel_running t =
    foldl (\<lambda>t key. if get_step key t = Running then set_step key Failed t else t) t all_steps"

text \<open>
  The signal handler, given the values of \<open>_currentState\<close> and \<open>_currentProjectPath\<close>. It
  returns the state object as it leaves it, next to the exit.
\<close>

definition handler ::
  "string \<Rightarrow> (scaffold_state \<times> path) option \<Rightarrow> world \<Rightarrow> (scaffold_state option \<times> proc_exit) \<times> world" where
  "handler sg cur w =
    (case cur of
       None \<Rightarrow> ((None, Exit EXIT_FAILURE None), w)
     | Some (state, pPath) \<Rightarrow>
         (let state1 = state\<lparr>steps := relabel_running (steps state)\<rparr>;
              state2 = state1\<lparr>error := Some (InterruptedMsg sg)\<rparr>
          in case saveState pPath state2 w of
               ((r, state3), w') \<Rightarrow> ((Some state3, Exit EXIT_FAILURE None), w')))"

definition interrupted :: "string \<Rightarrow> scaffold_state \<Rightarrow> path \<Rightarrow> world \<Rightarrow> (proc_exit + scaffold_state) \<times> world" where
  "interrupted sg state pPath w =
    (case handler sg (Some (state, pPath)) w of ((st, ex), w') \<Rightarrow> (Inl ex, w'))"

text \<open>An exception that escapes \<open>main\<close> reaches its \<open>catch\<close>: exit with failure, no summary.\<close>

definition uncaught :: proc_exit where
  "uncaught = Exit EXIT_FAILURE None"

text \<open>
  Each step of \<open>main\<close> either ends the process (\<open>Inl\<close>) or hands the state on to the next
  step (\<open>Inr\<close>).
\<close>

definition step_viteCreate ::
  "runner \<Rightarrow> string \<Rightarrow> path \<Rightarrow> path \<Rightarrow> scaffold_state \<Rightarrow> world \<Rightarrow> (proc_exit + scaffold_state) \<times> world" where
  "step_viteCreate run pName targetDir pPath state w =
    (if get_step ViteCreate (steps state) \<noteq> Done then
       (case createViteProject run pName targetDir TIMEOUT_viteCreate w of
          (Inl sg, w1) \<Rightarrow> interrupted sg state pPath w1
        | (Inr (Failure m), w1) \<Rightarrow>
            (let w2 = cleanup pPath w1;
                 state' = state\<lparr>steps := set_step ViteCreate Failed (steps state), error := Some m\<rparr>
             in (Inl (Exit EXIT_FAILURE (Some state')), w2))
        | (Inr Success, w1) \<Rightarrow>
            (case updateStep state pPath ViteCreate Done NoExtra w1 of
               ((Some e, st1), w2) \<Rightarrow> (Inl uncaught, w2)
             | ((None, st1), w2) \<Rightarrow> (Inr st1, w2)))
     else (Inr state, w))"

text \<open>
  The dependency-install and tool-init steps are the same code up to the step name and the
  command that is awaited.
\<close>

definition blocking_step ::
  "step \<Rightarrow> (world \<Rightarrow> (string + step_result) \<times> world) \<Rightarrow> path \<Rightarrow> scaffold_state \<Rightarrow> world
    \<Rightarrow> (proc_exit + scaffold_state) \<times> world" where
  "blocking_step stepName action pPath state w =
    (if get_step stepName (steps state) \<noteq> Done then
       (case updateStep state pPath stepName Running NoExtra w of
          ((Some e, st1), w1) \<Rightarrow> (Inl uncaught, w1)
        | ((None, st1), w1) \<Rightarrow>
            (case action w1 of
               (Inl sg, w2) \<Rightarrow> interrupted sg st1 pPath w2
             | (Inr (Failure m), w2) \<Rightarrow>
                 (case updateStep st1 pPath stepName Failed (ErrorExtra m) w2 of
                    ((Some e, st2), w3) \<Rightarrow> (Inl uncaught, w3)
                  | ((None, st2), w3) \<Rightarrow>
                      (Inl (Exit EXIT_FAILURE (Some st2)),
                       if freshCreation st2 then cleanup pPath w3 else w3))
             | (Inr Success, w2) \<Rightarrow>
                 (case updateStep st1 pPath stepName Done NoExtra w2 of
                    ((Some e, st2), w3) \<Rightarrow> (Inl uncaught, w3)
                  | ((None, st2), w3) \<Rightarrow> (Inr st2, w3))))
     else (Inr state, w))"

definition step_npmInstall :: "runner \<Rightarrow> path \<Rightarrow> scaffold_state \<Rightarrow> world \<Rightarrow> (proc_exit + scaffold_state) \<times> world" where
  "step_npmInstall run pPath = blocking_step NpmInstall (npmInstall_cmd run pPath TIMEOUT_npmInstall) pPath"

definition step_shadcnInit :: "runner \<Rightarrow> path \<Rightarrow> scaffold_state \<Rightarrow> world \<Rightarrow> (proc_exit + scaffold_state) \<times> world" where
  "step_shadcnInit run pPath = blocking_step ShadcnInit (initShadcn run pPath TIMEOUT_shadcnInit) pPath"

definition step_componentInstall ::
  "runner \<Rightarrow> path \<Rightarrow> scaffold_state \<Rightarrow> world \<Rightarrow> (proc_exit + scaffold_state) \<times> world" where
  "step_componentInstall run pPath state w =
    (if get_step ComponentInstall (steps state) \<noteq> Done then
       (case updateStep state pPath ComponentInstall Running NoExtra w of
          ((Some e, st1), w1) \<Rightarrow> (Inl uncaught, w1)
        | ((None, st1), w1) \<Rightarrow>
            (case installComponents run pPath (components st1) TIMEOUT_componentInstall w1 of
               (Inl sg, w2) \<Rightarrow> interrupted sg st1 pPath w2
             | (Inr installResult, w2) \<Rightarrow>
                 (case updateStep st1 pPath ComponentInstall Done
                         (ComponentsExtra (ir_installed installResult) (ir_failed installResult)) w2 of
                    ((Some e, st2), w3) \<Rightarrow> (Inl uncaught, w3)
                  | ((None, st2), w3) \<Rightarrow> (Inr st2, w3))))
     else (Inr state, w))"

definition step_verification :: "path \<Rightarrow> scaffold_state \<Rightarrow> world \<Rightarrow> (proc_exit + scaffold_state) \<times> world" where
  "step_verification pPath state w =
    (if get_step Verification (steps state) \<noteq> Done then
       (case updateStep state pPath Verification Running NoExtra w of
          ((Some e, st1), w1) \<Rightarrow> (Inl uncaught, w1)
        | ((None, st1), w1) \<Rightarrow>
            (let verifyResult = verifyProject pPath (installedComponents st1) w1
             in if \<not> vr_valid verifyResult then
                  (case updateStep st1 pPath Verification Failed
                          (ErrorExtra (VerificationMsg (vr_missing verifyResult))) w1 of
                     ((Some e, st2), w2) \<Rightarrow> (Inl uncaught, w2)
                   | ((None, st2), w2) \<Rightarrow> (Inl (Exit EXIT_FAILURE (Some st2)), w2))
                else
                  (case updateStep st1 pPath Verification Done NoExtra w1 of
                     ((Some e, st2), w2) \<Rightarrow> (Inl uncaught, w2)
                   | ((None, st2), w2) \<Rightarrow> (Inr st2, w2))))
     else (Inr state, w))"

definition finish :: "path \<Rightarrow> scaffold_state \<Rightarrow> world \<Rightarrow> proc_exit \<times> world" where
  "finish pPath state w =
    (case removeState pPath w of
       (Some e, w1) \<Rightarrow> (uncaught, w1)
     | (None, w1) \<Rightarrow> (Exit EXIT_SUCCESS (Some state), w1))"

definition and_then ::
  "(proc_exit + scaffold_state) \<times> world \<Rightarrow> (scaffold_state \<Rightarrow> world \<Rightarrow> (proc_exit + scaffold_state) \<times> world)
    \<Rightarrow> (proc_exit + scaffold_state) \<times> world" where
  "and_then r next_step =
    (case r of (Inl ex, w) \<Rightarrow> (Inl ex, w) | (Inr state, w) \<Rightarrow> next_step state w)"

definition pipeline ::
  "runner \<Rightarrow> string \<Rightarrow> path \<Rightarrow> path \<Rightarrow> scaffold_state \<Rightarrow> world \<Rightarrow> proc_exit \<times> world" where
  "pipeline run pName targetDir pPath state w =
    (case and_then (and_then (and_then (and_then
              (step_viteCreate run pName targetDir pPath state w)
              (step_npmInstall run pPath))
              (step_shadcnInit run pPath))
              (step_componentInstall run pPath))
              (step_verification pPath) of
       (Inl ex, w') \<Rightarrow> (ex, w')
     | (Inr state', w') \<Rightarrow> finish pPath state' w')"

text \<open>\<open>main\<close>, from the parsed arguments on.\<close>

definition initial_state :: "cli_args \<Rightarrow> validation \<Rightarrow> world \<Rightarrow> scaffold_state" where
  "initial_state a v w =
    (case existingState v of
       Some st \<Rightarrow> st\<lparr>freshCreation := False\<rparr>
     | None \<Rightarrow> createInitialState (cli_projectName a) (v_projectPath v) (cli_template a)
                 (resolvedComponents v) (clock w))"

definition main :: "runner \<Rightarrow> cli_args \<Rightarrow> world \<Rightarrow> proc_exit \<times> world" where
  "main run a w =
    (let v = validateInputs a w
     in if \<not> valid v then (Exit EXIT_FAILURE None, w)
        else pipeline run (cli_projectName a) (cli_targetDir a) (v_projectPath v)
               (initial_state a v w) w)"

section \<open>Observing the trace\<close>

text \<open>
  \<open>emits P w w'\<close>: the trace of \<open>w'\<close> is the trace of \<open>w\<close> followed by events that all
  satisfy \<open>P\<close>.
\<close>

definition new_events :: "world \<Rightarrow> world \<Rightarrow> event list" where
  "new_events w w' = drop (length (trace w)) (trace w')"

definition emits :: "(event \<Rightarrow> bool) \<Rightarrow> world \<Rightarrow> world \<Rightarrow> bool" where
  "emits P w w' = (take (length (trace w)) (trace w') = trace w \<and> list_all P (new_events w w'))"

definition persist_events :: "path \<Rightarrow> scaffold_state \<Rightarrow> event list" where
  "persist_events pPath st =
    [EvWriteFile (tmpFilePath pPath) (Doc st), EvRename (tmpFilePath pPath) (stateFilePath pPath)]"

fun is_persist :: "path \<Rightarrow> event \<Rightarrow> bool" where
  "is_persist pPath (EvWriteFile p c) = (p = tmpFilePath pPath)"
| "is_persist pPath (EvRename a b) = (a = tmpFilePath pPath \<and> b = stateFilePath pPath)"
| "is_persist pPath e = False"

text \<open>The step a spawned command belongs to, read off its command line.\<close>

fun spawn_step :: "event \<Rightarrow> step option" where
  "spawn_step (EvSpawn command args cwd timeout) =
    (if command = ''npm'' then Some NpmInstall
     else if take 1 args = [''create-vite@latest''] then Some ViteCreate
     else if take 2 args = [''shadcn@latest'', ''init''] then Some ShadcnInit
     else if take 2 args = [''shadcn@latest'', ''add''] then Some ComponentInstall
     else None)"
| "spawn_step e = None"

section \<open>The pipeline as a sequence of steps\<close>

text \<open>The block of \<open>main\<close> that belongs to a step.\<close>

fun run_step ::
  "runner \<Rightarrow> string \<Rightarrow> path \<Rightarrow> path \<Rightarrow> step \<Rightarrow> scaffold_state \<Rightarrow> world
    \<Rightarrow> (proc_exit + scaffold_state) \<times> world" where
  "run_step run pName targetDir pPath ViteCreate = step_viteCreate run pName targetDir pPath"
| "run_step run pName targetDir pPath NpmInstall = step_npmInstall run pPath"
| "run_step run pName targetDir pPath ShadcnInit = step_shadcnInit run pPath"
| "run_step run pName targetDir pPath ComponentInstall = step_componentInstall run pPath"
| "run_step run pName targetDir pPath Verification = step_verification pPath"

fun run_steps ::
  "runner \<Rightarrow> string \<Rightarrow> path \<Rightarrow> path \<Rightarrow> step list \<Rightarrow> scaffold_state \<Rightarrow> world
    \<Rightarrow> (proc_exit + scaffold_state) \<times> world" where
  "run_steps run pName targetDir pPath [] state w = (Inr state, w)"
| "run_steps run pName targetDir pPath (s # ss) state w =
     and_then (run_step run pName targetDir pPath s state w) (run_steps run pName targetDir pPath ss)"

text \<open>
  What a step that is not yet done may do besides persisting: spawn its own command, and
  remove the project directory (the bootstrap step always, the dependency-install and
  tool-init steps of a fresh creation).
\<close>

definition step_effect :: "path \<Rightarrow> step \<Rightarrow> bool \<Rightarrow> event \<Rightarrow> bool" where
  "step_effect pPath s fresh e =
    (spawn_step e = Some s
     \<or> (e = EvRm pPath \<and> (s = ViteCreate \<or> (fresh \<and> (s = NpmInstall \<or> s = ShadcnInit)))))"

definition chain_event :: "path \<Rightarrow> step_table \<Rightarrow> bool \<Rightarrow> step list \<Rightarrow> event \<Rightarrow> bool" where
  "chain_event pPath tbl fresh ss e =
    (is_persist pPath e \<or> list_ex (\<lambda>s. get_step s tbl \<noteq> Done \<and> step_effect pPath s fresh e) ss)"

text \<open>
  What holds after the block of step \<open>s\<close>: if the pipeline goes on, the step is done, the
  other steps are as they were, and when the step was run the checkpoint holds the state
  handed on; if the process exits, it exits with failure and a printed summary shows the
  step as failed.
\<close>

definition step_post ::
  "path \<Rightarrow> step \<Rightarrow> scaffold_state \<Rightarrow> (proc_exit + scaffold_state) \<times> world \<Rightarrow> bool" where
  "step_post pPath s state r =
    (case r of
       (Inr st', w') \<Rightarrow>
          get_step s (steps st') = Done
        \<and> list_all (\<lambda>k. k = s \<or> get_step k (steps st') = get_step k (steps state)) all_steps
        \<and> freshCreation st' = freshCreation state
        \<and> components st' = components state
        \<and> (get_step s (steps state) = Done
            \<or> fs w' (stateFilePath pPath) = Some (File (Doc st')))
     | (Inl ex, w') \<Rightarrow>
          get_step s (steps state) \<noteq> Done
        \<and> exit_code ex = EXIT_FAILURE
        \<and> (case summary ex of None \<Rightarrow> True | Some st \<Rightarrow> get_step s (steps st) = Failed))"

section \<open>Example environments\<close>

text \<open>
  A simulated environment for the project \<open>/w/app\<close>: \<open>decide\<close> gives, from the arguments of
  the command and the time it is started, how the command ends and how long it takes. The
  bootstrap command creates the project directory and its files, the dependency manager
  creates \<open>node_modules\<close>.
\<close>

definition sim :: "(string list \<Rightarrow> int \<Rightarrow> outcome \<times> int) \<Rightarrow> runner" where
  "sim decide command args cwd timeout w =
    (case decide args (clock w) of
       (out, duration) \<Rightarrow>
         (out,
          w\<lparr>fs := (if command = ''npm'' then (fs w)(''/w/app/node_modules'' \<mapsto> Dir)
                    else if take 1 args = [''create-vite@latest'']
                    then (fs w)(''/w/app'' \<mapsto> Dir,
                                ''/w/app/package.json'' \<mapsto> File (Text ''{}''),
                                ''/w/app/src'' \<mapsto> Dir,
                                ''/w/app/vite.config.ts'' \<mapsto> File (Text ''export default {}''))
                    else fs w),
             clock := clock w + duration\<rparr>))"

definition all_succeed :: "string list \<Rightarrow> int \<Rightarrow> outcome \<times> int" where
  "all_succeed args now = (Closed (Some 0) None, 1000)"

definition w_parent :: world where
  "w_parent = \<lparr>fs = [''/w'' \<mapsto> Dir], writable = (\<lambda>p. True), clock = 0, trace = []\<rparr>"

definition args_minimal :: cli_args where
  "args_minimal = \<lparr>cli_projectName = ''app'', cli_template = ''minimal'', cli_components = [],
                    cli_targetDir = ''/w''\<rparr>"

definition st_fresh :: scaffold_state where
  "st_fresh = createInitialState ''app'' ''/w/app'' ''minimal''
                [''button'', ''card'', ''badge'', ''input''] 0"

definition st_bootstrapped :: scaffold_state where
  "st_bootstrapped = st_fresh\<lparr>steps := set_step ViteCreate Done (steps st_fresh), updatedAt := 1000\<rparr>"

text \<open>The project directory after a completed bootstrap step, with its checkpoint.\<close>

definition w_bootstrapped :: world where
  "w_bootstrapped =
    \<lparr>fs = [''/w'' \<mapsto> Dir, ''/w/app'' \<mapsto> Dir,
           ''/w/app/package.json'' \<mapsto> File (Text ''{}''),
           ''/w/app/src'' \<mapsto> Dir,
           ''/w/app/vite.config.ts'' \<mapsto> File (Text ''export default {}''),
           ''/w/app/.scaffolder-state.json'' \<mapsto> File (Doc st_bootstrapped)],
     writable = (\<lambda>p. True), clock = 7000, trace = []\<rparr>"

definition args_duplicate :: cli_args where
  "args_duplicate = \<lparr>cli_projectName = ''app'', cli_template = ''custom'',
                      cli_components = [''button'', ''button''], cli_targetDir = ''/w''\<rparr>"

definition args_too_many :: cli_args where
  "args_too_many = \<lparr>cli_projectName = ''app'', cli_template = ''custom'',
                     cli_components = replicate 21 ''button'', cli_targetDir = ''/w''\<rparr>"

text \<open>Every command fails until the clock reaches 9000 and succeeds from then on.\<close>

definition flaky :: "string list \<Rightarrow> int \<Rightarrow> outcome \<times> int" where
  "flaky args now = (if now < 9000 then (Closed (Some 1) None, 1000) else (Closed (Some 0) None, 1000))"

definition all_fail :: "string list \<Rightarrow> int \<Rightarrow> outcome \<times> int" where
  "all_fail args now = (Closed (Some 1) None, 1000)"

text \<open>The state once the dependency-install and tool-init steps are done as well.\<close>

definition st_initialised :: scaffold_state where
  "st_initialised =
     st_bootstrapped\<lparr>steps := set_step ShadcnInit Done (set_step NpmInstall Done (steps st_bootstrapped))\<rparr>"






text \<open>A termination signal arrives while the dependency manager runs.\<close>

definition npm_interrupted :: "string list \<Rightarrow> int \<Rightarrow> outcome \<times> int" where
  "npm_interrupted args now =
    (if args = [''install''] then (Signalled ''SIGINT'', 500) else (Closed (Some 0) None, 1000))"



text \<open>
  A termination signal arrives while the bootstrap command runs, after it has created the
  project directory.
\<close>

definition bootstrap_interrupted :: "string list \<Rightarrow> int \<Rightarrow> outcome \<times> int" where
  "bootstrap_interrupted args now =
    (if take 1 args = [''create-vite@latest''] then (Signalled ''SIGINT'', 500)
     else (Closed (Some 0) None, 1000))"

text \<open>The world that this interrupted run leaves behind.\<close>

definition w_bootstrap_interrupted :: world where
  "w_bootstrap_interrupted = snd (main (sim bootstrap_interrupted) args_minimal w_parent)"

text \<open>
  The batch installation (its command line names more than one component) fails after 10
  seconds; every other command hangs until its timeout kills it.
\<close>

definition hanging :: runner where
  "hanging command args cwd timeout w =
    (if length args > 9 then (Closed (Some 1) None, w\<lparr>clock := clock w + 10000\<rparr>)
     else (Closed None (Some ''SIGTERM''), w\<lparr>clock := clock w + timeout\<rparr>))"

definition six_components :: "string list" where
  "six_components = [''button'', ''card'', ''badge'', ''input'', ''tabs'', ''table'']"


section \<open>Facts about the file-system primitives\<close>

lemma writeFileSync_other: "q \<noteq> p \<Longrightarrow> fs (snd (writeFileSync p c w)) q = fs w q"
  by (simp add: writeFileSync_def emit_def Let_def)

lemma writeFileSync_trace: "trace (snd (writeFileSync p c w)) = trace w @ [EvWriteFile p c]"
  by (simp add: writeFileSync_def emit_def Let_def)

lemma writeFileSync_fs_same:
  "fst (writeFileSync p c w) = None \<Longrightarrow> fs (snd (writeFileSync p c w)) p = Some (File c)"
  by (simp add: writeFileSync_def emit_def Let_def split: if_splits)

lemma renameSync_trace: "trace (snd (renameSync a b w)) = trace w @ [EvRename a b]"
  by (simp add: renameSync_def emit_def Let_def split: option.splits node.splits)

lemma renameSync_fs:
  "fs (snd (renameSync a b w)) b = (if fst (renameSync a b w) = None then fs w a else fs w b)"
  by (simp add: renameSync_def emit_def Let_def split: option.splits node.splits)

section \<open>The checkpoint is replaced atomically\<close>

text \<open>
  C1. \<open>saveState\<close> refreshes \<open>updatedAt\<close> first, writes the serialised state to the temporary
  file (the canonical path plus \<open>.tmp\<close>) and only then renames it onto the canonical path.
  No write is ever issued to the canonical path. At every point before the rename (before
  the write, in the middle of it with any truncated text in the temporary file, after it)
  the canonical path holds what it held before \<open>saveState\<close> was called, be that the prior
  checkpoint or nothing; after \<open>saveState\<close> it holds the complete new document if the call
  succeeded and its prior content if it threw.
\<close>

theorem saveState_atomic_rename:
  assumes "saveState pPath state w = ((r, st'), w')"
  shows "st' = state\<lparr>updatedAt := clock w\<rparr>
    \<and> trace w' = trace w @ EvWriteFile (tmpFilePath pPath) (JSON_stringify st')
          # (if fst (writeFileSync (tmpFilePath pPath) (JSON_stringify st') w) = None
             then [EvRename (tmpFilePath pPath) (stateFilePath pPath)] else [])
    \<and> (\<forall>c. EvWriteFile (stateFilePath pPath) c \<notin> set (drop (length (trace w)) (trace w')))
    \<and> (\<forall>cp. fs (saveState_crash cp pPath state w) (stateFilePath pPath) = fs w (stateFilePath pPath))
    \<and> fs w' (stateFilePath pPath) =
         (if r = None then Some (File (JSON_stringify st')) else fs w (stateFilePath pPath))"
proof -
  let ?tmp = "tmpFilePath pPath" and ?file = "stateFilePath pPath"
  let ?st = "state\<lparr>updatedAt := clock w\<rparr>"
  let ?wr = "writeFileSync ?tmp (JSON_stringify ?st) w"
  have neq: "?file \<noteq> ?tmp" by (simp add: tmpFilePath_def)
  have st: "st' = ?st"
    using assms by (auto simp: saveState_def Let_def tmpFilePath_def split: prod.splits option.splits)
  have keep: "fs (snd ?wr) ?file = fs w ?file"
    using neq by (rule writeFileSync_other)
  have tr: "trace w' = trace w @ EvWriteFile ?tmp (JSON_stringify ?st)
          # (if fst ?wr = None then [EvRename ?tmp ?file] else [])"
  proof (cases "fst ?wr")
    case None
    then have "w' = snd (renameSync ?tmp ?file (snd ?wr))"
      using assms by (auto simp: saveState_def Let_def tmpFilePath_def split: prod.splits option.splits)
    then show ?thesis using None by (simp add: renameSync_trace writeFileSync_trace)
  next
    case (Some e)
    then have "w' = snd ?wr"
      using assms by (auto simp: saveState_def Let_def tmpFilePath_def split: prod.splits option.splits)
    then show ?thesis using Some by (simp add: writeFileSync_trace)
  qed
  have nowrite: "\<forall>c. EvWriteFile ?file c \<notin> set (drop (length (trace w)) (trace w'))"
    using neq tr by auto
  have crash: "\<forall>cp. fs (saveState_crash cp pPath state w) ?file = fs w ?file"
  proof
    fix cp show "fs (saveState_crash cp pPath state w) ?file = fs w ?file"
      using neq by (cases cp) (simp_all add: writeFileSync_other tmpFilePath_def)
  qed
  have final: "fs w' ?file = (if r = None then Some (File (JSON_stringify ?st)) else fs w ?file)"
  proof (cases "fst ?wr")
    case None
    then have eq: "w' = snd (renameSync ?tmp ?file (snd ?wr))"
        "r = fst (renameSync ?tmp ?file (snd ?wr))"
      using assms by (auto simp: saveState_def Let_def tmpFilePath_def split: prod.splits option.splits)
    show ?thesis using eq None keep
      by (simp add: renameSync_fs writeFileSync_fs_same)
  next
    case (Some e)
    then have "w' = snd ?wr" "r = Some e"
      using assms by (auto simp: saveState_def Let_def tmpFilePath_def split: prod.splits option.splits)
    then show ?thesis using keep by simp
  qed
  show ?thesis using st tr nowrite crash final by simp
qed

text \<open>
  At a project that holds a checkpoint: a crash in the middle of the write leaves the prior
  checkpoint under the canonical name, and the completed call leaves the new one.
\<close>

theorem saveState_atomic_rename_witness:
  "fst (fst (saveState ''/w/app'' (st_bootstrapped\<lparr>error := Some (InterruptedMsg ''SIGINT'')\<rparr>)
              w_bootstrapped)) = None
   \<and> fs (saveState_crash (DuringWrite ''{'') ''/w/app''
            (st_bootstrapped\<lparr>error := Some (InterruptedMsg ''SIGINT'')\<rparr>) w_bootstrapped)
        (stateFilePath ''/w/app'') = Some (File (Doc st_bootstrapped))
   \<and> fs (snd (saveState ''/w/app'' (st_bootstrapped\<lparr>error := Some (InterruptedMsg ''SIGINT'')\<rparr>)
              w_bootstrapped)) (stateFilePath ''/w/app'')
       = Some (File (Doc (st_bootstrapped\<lparr>error := Some (InterruptedMsg ''SIGINT''), updatedAt := 7000\<rparr>)))"
proof -
  let ?st = "st_bootstrapped\<lparr>error := Some (InterruptedMsg ''SIGINT'')\<rparr>"
  let ?res = "saveState ''/w/app'' ?st w_bootstrapped"
  have ok: "fst (fst ?res) = None"
    by code_simp
  have prior: "fs w_bootstrapped (stateFilePath ''/w/app'') = Some (File (Doc st_bootstrapped))"
    by code_simp
  have now: "clock w_bootstrapped = 7000"
    by (simp add: w_bootstrapped_def)
  have run: "?res = ((fst (fst ?res), snd (fst ?res)), snd ?res)"
    by simp
  note fact = saveState_atomic_rename [OF run]
  from fact have st: "snd (fst ?res) = ?st\<lparr>updatedAt := clock w_bootstrapped\<rparr>"
    by blast
  from fact have "\<forall>cp. fs (saveState_crash cp ''/w/app'' ?st w_bootstrapped) (stateFilePath ''/w/app'')
      = fs w_bootstrapped (stateFilePath ''/w/app'')"
    by blast
  then have crash: "fs (saveState_crash (DuringWrite ''{'') ''/w/app'' ?st w_bootstrapped)
      (stateFilePath ''/w/app'') = Some (File (Doc st_bootstrapped))"
    using prior by metis
  from fact have "fs (snd ?res) (stateFilePath ''/w/app'') =
      (if fst (fst ?res) = None then Some (File (JSON_stringify (snd (fst ?res))))
       else fs w_bootstrapped (stateFilePath ''/w/app''))"
    by blast
  then have final: "fs (snd ?res) (stateFilePath ''/w/app'')
      = Some (File (Doc (?st\<lparr>updatedAt := 7000\<rparr>)))"
    using ok st now by (simp add: JSON_stringify_def)
  show ?thesis using ok crash final by blast
qed

section \<open>Duplicate component names are rejected\<close>

lemma new_Set_fold:
  "distinct acc \<Longrightarrow>
     distinct (foldl (\<lambda>acc x. if x \<in> set acc then acc else acc @ [x]) acc xs)
   \<and> set (foldl (\<lambda>acc x. if x \<in> set acc then acc else acc @ [x]) acc xs) = set acc \<union> set xs"
  by (induction xs arbitrary: acc) auto

lemma distinct_new_Set: "distinct (new_Set xs)"
  using new_Set_fold [of "[]" xs] by (simp add: new_Set_def)

lemma set_new_Set: "set (new_Set xs) = set xs"
  using new_Set_fold [of "[]" xs] by (simp add: new_Set_def)

lemma length_new_Set: "length (new_Set xs) = card (set xs)"
  using distinct_card [OF distinct_new_Set, of xs] by (simp add: set_new_Set)

lemma length_new_Set_duplicates: "\<not> distinct xs \<Longrightarrow> length (new_Set xs) \<noteq> length xs"
  using card_distinct [of xs] by (auto simp: length_new_Set)

lemma resolve_custom:
  assumes "comps \<noteq> []" "length comps \<le> 20"
  shows "resolve_components ''custom'' comps =
    (map InvalidComponentName (filter (\<lambda>name. \<not> component_name_ok name) comps)
       @ (if length (new_Set comps) \<noteq> length comps then [DuplicateComponents] else []),
     new_Set comps)"
  using assms by (simp add: resolve_components_def Let_def)

text \<open>
  C8 (as amended). For every custom component list of at most 20 items that contains a
  duplicate, validation reports the duplicate-detected error, the resolved list has as many
  items as there are distinct names, validation fails, and \<open>main\<close> exits with failure leaving
  the world as it was: no command has been run and nothing written.
\<close>

theorem duplicates_rejected:
  assumes "cli_template a = ''custom''"
    and "\<not> distinct (cli_components a)"
    and "length (cli_components a) \<le> 20"
  shows "DuplicateComponents \<in> set (errors (validateInputs a w))
    \<and> length (resolvedComponents (validateInputs a w)) = card (set (cli_components a))
    \<and> \<not> valid (validateInputs a w)
    \<and> main run a w = (Exit EXIT_FAILURE None, w)"
proof -
  from assms(2) have ne: "cli_components a \<noteq> []" by auto
  have res: "resolve_components (cli_template a) (cli_components a) =
    (map InvalidComponentName (filter (\<lambda>name. \<not> component_name_ok name) (cli_components a))
       @ [DuplicateComponents], new_Set (cli_components a))"
    using resolve_custom [OF ne assms(3)] length_new_Set_duplicates [OF assms(2)] assms(1)
    by simp
  have dup: "DuplicateComponents \<in> set (errors (validateInputs a w))"
    by (simp add: validateInputs_def Let_def res split: prod.splits)
  have len: "length (resolvedComponents (validateInputs a w)) = card (set (cli_components a))"
    by (simp add: validateInputs_def Let_def res length_new_Set split: prod.splits)
  have inv: "\<not> valid (validateInputs a w)"
    by (simp add: validateInputs_def Let_def res split: prod.splits)
  have "main run a w = (Exit EXIT_FAILURE None, w)"
    using inv by (simp add: main_def Let_def)
  with dup len inv show ?thesis by simp
qed

text \<open>The end-to-end scenario: template \<open>custom\<close>, components \<open>button, button\<close>.\<close>

theorem duplicates_rejected_witness:
  "cli_template args_duplicate = ''custom''
   \<and> \<not> distinct (cli_components args_duplicate)
   \<and> length (cli_components args_duplicate) \<le> 20
   \<and> DuplicateComponents \<in> set (errors (validateInputs args_duplicate w_parent))
   \<and> length (resolvedComponents (validateInputs args_duplicate w_parent)) = 1
   \<and> main (sim all_succeed) args_duplicate w_parent = (Exit EXIT_FAILURE None, w_parent)
   \<and> trace (snd (main (sim all_succeed) args_duplicate w_parent)) = []"
proof -
  have h1: "cli_template args_duplicate = ''custom''"
    by (simp add: args_duplicate_def)
  have h2: "\<not> distinct (cli_components args_duplicate)"
    by (simp add: args_duplicate_def)
  have h3: "length (cli_components args_duplicate) \<le> 20"
    by (simp add: args_duplicate_def)
  have c: "card (set (cli_components args_duplicate)) = 1"
    by (simp add: args_duplicate_def)
  have t: "trace w_parent = []"
    by (simp add: w_parent_def)
  show ?thesis
    using duplicates_rejected [OF h1 h2 h3, of w_parent "sim all_succeed"] h1 h2 h3 c t
    by simp
qed

text \<open>
  C8 as stated fails for a list of more than 20 items: the size check comes first, the
  duplicate check is not reached, and the resolved list stays empty.
\<close>

theorem duplicates_over_limit_counterexample:
  "cli_template args_too_many = ''custom''
   \<and> \<not> distinct (cli_components args_too_many)
   \<and> DuplicateComponents \<notin> set (errors (validateInputs args_too_many w_parent))
   \<and> errors (validateInputs args_too_many w_parent) = [TooManyComponents 21]
   \<and> length (resolvedComponents (validateInputs args_too_many w_parent)) = 0
   \<and> card (set (cli_components args_too_many)) = 1"
  by code_simp

section \<open>Facts about traces\<close>

lemma emitsI: "trace w' = trace w @ evs \<Longrightarrow> list_all P evs \<Longrightarrow> emits P w w'"
  by (simp add: emits_def new_events_def)

lemma emitsD: "emits P w w' \<Longrightarrow> trace w' = trace w @ new_events w w' \<and> list_all P (new_events w w')"
  unfolding emits_def new_events_def by (metis append_take_drop_id)

lemma new_events_append: "trace w' = trace w @ evs \<Longrightarrow> new_events w w' = evs"
  by (simp add: new_events_def)

lemma emits_refl: "emits P w w"
  by (simp add: emits_def new_events_def)

lemma emits_trans: "emits P w w1 \<Longrightarrow> emits P w1 w2 \<Longrightarrow> emits P w w2"
proof -
  assume a: "emits P w w1" and b: "emits P w1 w2"
  from emitsD [OF a] emitsD [OF b]
  have "trace w2 = trace w @ (new_events w w1 @ new_events w1 w2)"
    and "list_all P (new_events w w1 @ new_events w1 w2)"
    by simp_all
  then show ?thesis by (rule emitsI)
qed

lemma emits_mono: "emits P w w' \<Longrightarrow> (\<And>e. P e \<Longrightarrow> Q e) \<Longrightarrow> emits Q w w'"
  unfolding emits_def by (auto simp: list_all_iff)

lemma emits_new_events_trans:
  "emits P w w1 \<Longrightarrow> emits Q w1 w2 \<Longrightarrow> new_events w w2 = new_events w w1 @ new_events w1 w2"
proof -
  assume a: "emits P w w1" and b: "emits Q w1 w2"
  from emitsD [OF a] emitsD [OF b]
  have "trace w2 = trace w @ (new_events w w1 @ new_events w1 w2)" by simp
  then show ?thesis by (rule new_events_append)
qed

section \<open>Facts about the command runner\<close>

lemma runCommand_trace:
  "trace (snd (runCommand run c a d t w)) = trace w @ [EvSpawn c a d t]"
  by (simp add: runCommand_def emit_def Let_def split: prod.splits)

lemma runCommand_emits:
  "P (EvSpawn c a d t) \<Longrightarrow> emits P w (snd (runCommand run c a d t w))"
  by (rule emitsI [OF runCommand_trace]) simp

lemma spawn_step_add: "spawn_step (EvSpawn ''npx'' (add_args pPath names) cwd t) = Some ComponentInstall"
  by (simp add: add_args_def numeral_2_eq_2)

section \<open>The installer\<close>

lemma install_loop_exhausted:
  "timeout - (clock w - startTime) \<le> 5000 \<Longrightarrow>
   install_loop run pPath timeout startTime xs installed failed w = (Inr (installed, failed @ xs), w)"
  by (induction xs arbitrary: failed) (simp_all add: Let_def)

lemma install_loop_emits:
  "emits (\<lambda>e. spawn_step e = Some ComponentInstall) w
     (snd (install_loop run pPath timeout startTime xs installed failed w))"
proof (induction xs arbitrary: installed failed w)
  case Nil
  show ?case by (simp add: emits_refl)
next
  case (Cons name rest)
  let ?P = "\<lambda>e. spawn_step e = Some ComponentInstall"
  let ?t = "min 60000 (timeout - (clock w - startTime))"
  let ?rc = "runCommand run ''npx'' (add_args pPath [name]) pPath ?t w"
  have rc: "emits ?P w (snd ?rc)"
    by (rule runCommand_emits) (rule spawn_step_add)
  show ?case
  proof (cases "timeout - (clock w - startTime) \<le> 5000")
    case True
    then show ?thesis using Cons.IH by (simp add: Let_def)
  next
    case False
    show ?thesis
    proof (cases ?rc)
      case (Pair a w')
      with rc have e: "emits ?P w w'" by simp
      show ?thesis
        using False Pair e Cons.IH [where w = w']
        by (auto simp: Let_def split: answer.splits intro: emits_trans)
    qed
  qed
qed

lemma install_loop_partition:
  "install_loop run pPath timeout startTime xs installed failed w = (Inr (i, f), w') \<Longrightarrow>
   \<exists>as bs. i = installed @ as \<and> f = failed @ bs
     \<and> length as + length bs = length xs \<and> set as \<union> set bs = set xs
     \<and> (distinct xs \<longrightarrow> set as \<inter> set bs = {})"
proof (induction xs arbitrary: installed failed w)
  case Nil
  then show ?case by simp
next
  case (Cons name rest)
  let ?t = "min 60000 (timeout - (clock w - startTime))"
  let ?rc = "runCommand run ''npx'' (add_args pPath [name]) pPath ?t w"
  have "\<exists>w1. install_loop run pPath timeout startTime rest (installed @ [name]) failed w1 = (Inr (i, f), w')
        \<or> install_loop run pPath timeout startTime rest installed (failed @ [name]) w1 = (Inr (i, f), w')"
    using Cons.prems
    by (auto simp: Let_def split: if_splits prod.splits answer.splits)
  then obtain w1 where
    "install_loop run pPath timeout startTime rest (installed @ [name]) failed w1 = (Inr (i, f), w')
     \<or> install_loop run pPath timeout startTime rest installed (failed @ [name]) w1 = (Inr (i, f), w')"
    by blast
  then show ?case
  proof
    assume "install_loop run pPath timeout startTime rest (installed @ [name]) failed w1 = (Inr (i, f), w')"
    from Cons.IH [OF this] obtain as bs where
      "i = (installed @ [name]) @ as" "f = failed @ bs"
      "length as + length bs = length rest" "set as \<union> set bs = set rest"
      "distinct rest \<longrightarrow> set as \<inter> set bs = {}"
      by blast
    then have "i = installed @ (name # as) \<and> f = failed @ bs
      \<and> length (name # as) + length bs = length (name # rest)
      \<and> set (name # as) \<union> set bs = set (name # rest)
      \<and> (distinct (name # rest) \<longrightarrow> set (name # as) \<inter> set bs = {})"
      by auto
    then show ?thesis by blast
  next
    assume "install_loop run pPath timeout startTime rest installed (failed @ [name]) w1 = (Inr (i, f), w')"
    from Cons.IH [OF this] obtain as bs where
      "i = installed @ as" "f = (failed @ [name]) @ bs"
      "length as + length bs = length rest" "set as \<union> set bs = set rest"
      "distinct rest \<longrightarrow> set as \<inter> set bs = {}"
      by blast
    then have "i = installed @ as \<and> f = failed @ (name # bs)
      \<and> length as + length (name # bs) = length (name # rest)
      \<and> set as \<union> set (name # bs) = set (name # rest)
      \<and> (distinct (name # rest) \<longrightarrow> set as \<inter> set (name # bs) = {})"
      by auto
    then show ?thesis by blast
  qed
qed

lemma installComponents_partition:
  assumes "installComponents run pPath comps timeout w = (Inr r, w')"
  shows "length (ir_installed r) + length (ir_failed r) = length comps
    \<and> set (ir_installed r) \<union> set (ir_failed r) = set comps
    \<and> (distinct comps \<longrightarrow> set (ir_installed r) \<inter> set (ir_failed r) = {})
    \<and> (ir_success r \<longleftrightarrow> ir_failed r = [])"
proof (cases "comps = []")
  case True
  with assms show ?thesis by (auto simp: installComponents_def)
next
  case False
  let ?rc = "runCommand run ''npx'' (add_args pPath comps) pPath timeout w"
  have "(r = \<lparr>ir_success = True, ir_installed = comps, ir_failed = []\<rparr>)
      \<or> (\<exists>w1. install_fallback run pPath timeout (clock w) comps w1 = (Inr r, w'))"
    using assms False
    by (auto simp: installComponents_def Let_def split: prod.splits answer.splits if_splits)
  then show ?thesis
  proof
    assume "r = \<lparr>ir_success = True, ir_installed = comps, ir_failed = []\<rparr>"
    then show ?thesis by simp
  next
    assume "\<exists>w1. install_fallback run pPath timeout (clock w) comps w1 = (Inr r, w')"
    then obtain w1 where fb: "install_fallback run pPath timeout (clock w) comps w1 = (Inr r, w')"
      by blast
    obtain x w2 where lp: "install_loop run pPath timeout (clock w) comps [] [] w1 = (x, w2)"
      by (cases "install_loop run pPath timeout (clock w) comps [] [] w1")
    from fb lp obtain i f where x: "x = Inr (i, f)" and w2: "w2 = w'"
      and r: "r = \<lparr>ir_success = (f = []), ir_installed = i, ir_failed = f\<rparr>"
      by (cases x) (auto simp: install_fallback_def)
    from lp x w2 have loop: "install_loop run pPath timeout (clock w) comps [] [] w1 = (Inr (i, f), w')"
      by simp
    from install_loop_partition [OF loop] r show ?thesis by auto
  qed
qed

section \<open>Facts about persisting\<close>

lemma saveState_state: "snd (fst (saveState pPath st w)) = st\<lparr>updatedAt := clock w\<rparr>"
  by (simp add: saveState_def Let_def split: prod.splits option.splits)

lemma saveState_ok:
  assumes "fst (fst (saveState pPath st w)) = None"
  shows "trace (snd (saveState pPath st w)) = trace w @ persist_events pPath (st\<lparr>updatedAt := clock w\<rparr>)
    \<and> fs (snd (saveState pPath st w)) (stateFilePath pPath) = Some (File (Doc (st\<lparr>updatedAt := clock w\<rparr>)))"
proof -
  let ?st = "st\<lparr>updatedAt := clock w\<rparr>"
  let ?wr = "writeFileSync (tmpFilePath pPath) (Doc ?st) w"
  let ?rn = "renameSync (tmpFilePath pPath) (stateFilePath pPath) (snd ?wr)"
  have wr: "fst ?wr = None"
    using assms
    by (auto simp: saveState_def Let_def tmpFilePath_def JSON_stringify_def split: prod.splits option.splits)
  then have eq: "saveState pPath st w = ((fst ?rn, ?st), snd ?rn)"
    by (auto simp: saveState_def Let_def tmpFilePath_def JSON_stringify_def split: prod.splits option.splits)
  with assms have rn: "fst ?rn = None" by simp
  show ?thesis
    using eq wr rn
    by (simp add: renameSync_trace writeFileSync_trace renameSync_fs writeFileSync_fs_same
        persist_events_def)
qed

lemma saveState_emits: "emits (is_persist pPath) w (snd (saveState pPath st w))"
proof -
  let ?st = "st\<lparr>updatedAt := clock w\<rparr>"
  let ?wr = "writeFileSync (tmpFilePath pPath) (Doc ?st) w"
  let ?rn = "renameSync (tmpFilePath pPath) (stateFilePath pPath) (snd ?wr)"
  have "snd (saveState pPath st w) = snd ?wr \<or> snd (saveState pPath st w) = snd ?rn"
    by (auto simp: saveState_def Let_def tmpFilePath_def JSON_stringify_def split: prod.splits option.splits)
  then show ?thesis
  proof
    assume "snd (saveState pPath st w) = snd ?wr"
    then have "trace (snd (saveState pPath st w)) = trace w @ [EvWriteFile (tmpFilePath pPath) (Doc ?st)]"
      by (simp add: writeFileSync_trace)
    then show ?thesis by (rule emitsI) simp
  next
    assume "snd (saveState pPath st w) = snd ?rn"
    then have "trace (snd (saveState pPath st w)) = trace w @ persist_events pPath ?st"
      by (simp add: writeFileSync_trace renameSync_trace persist_events_def)
    then show ?thesis by (rule emitsI) (simp add: persist_events_def)
  qed
qed

lemma writeFileSync_clock: "clock (snd (writeFileSync p c w)) = clock w"
  by (simp add: writeFileSync_def emit_def Let_def)

lemma renameSync_clock: "clock (snd (renameSync a b w)) = clock w"
  by (simp add: renameSync_def emit_def Let_def split: option.splits node.splits)

lemma renameSync_other: "q \<noteq> a \<Longrightarrow> q \<noteq> b \<Longrightarrow> fs (snd (renameSync a b w)) q = fs w q"
  by (simp add: renameSync_def emit_def Let_def split: option.splits node.splits)

lemma saveState_clock: "clock (snd (saveState pPath st w)) = clock w"
  by (simp add: saveState_def Let_def writeFileSync_clock renameSync_clock
      split: prod.splits option.splits)
     (metis renameSync_clock writeFileSync_clock snd_conv)

lemma saveState_frame:
  assumes "q \<noteq> tmpFilePath pPath" "q \<noteq> stateFilePath pPath"
  shows "fs (snd (saveState pPath st w)) q = fs w q"
proof -
  let ?st = "st\<lparr>updatedAt := clock w\<rparr>"
  let ?wr = "writeFileSync (tmpFilePath pPath) (Doc ?st) w"
  let ?rn = "renameSync (tmpFilePath pPath) (stateFilePath pPath) (snd ?wr)"
  have "snd (saveState pPath st w) = snd ?wr \<or> snd (saveState pPath st w) = snd ?rn"
    by (auto simp: saveState_def Let_def tmpFilePath_def JSON_stringify_def split: prod.splits option.splits)
  then show ?thesis
    using assms by (auto simp: renameSync_other writeFileSync_other)
qed

lemma updateStep_state:
  "snd (fst (updateStep st pPath s status ex w))
     = (assign_extra ex (st\<lparr>steps := set_step s status (steps st)\<rparr>))\<lparr>updatedAt := clock w\<rparr>"
  by (simp add: updateStep_def saveState_state)

lemma updateStep_ok:
  assumes "updateStep st pPath s status ex w = ((None, st'), w')"
  shows "st' = (assign_extra ex (st\<lparr>steps := set_step s status (steps st)\<rparr>))\<lparr>updatedAt := clock w\<rparr>
    \<and> trace w' = trace w @ persist_events pPath st'
    \<and> fs w' (stateFilePath pPath) = Some (File (Doc st'))
    \<and> clock w' = clock w"
proof -
  let ?arg = "assign_extra ex (st\<lparr>steps := set_step s status (steps st)\<rparr>)"
  from assms have eq: "saveState pPath ?arg w = ((None, st'), w')"
    by (simp add: updateStep_def)
  then have ok: "fst (fst (saveState pPath ?arg w)) = None" by simp
  from eq have st': "st' = ?arg\<lparr>updatedAt := clock w\<rparr>"
    using saveState_state [of pPath ?arg w] by simp
  from eq have w': "w' = snd (saveState pPath ?arg w)" by simp
  show ?thesis
    using saveState_ok [OF ok] st' w' saveState_clock [of pPath ?arg w] by simp
qed

lemma updateStep_emits:
  assumes "updateStep st pPath s status ex w = (x, w')"
  shows "emits (is_persist pPath) w w'"
proof -
  from assms have "w' = snd (saveState pPath (assign_extra ex (st\<lparr>steps := set_step s status (steps st)\<rparr>)) w)"
    by (simp add: updateStep_def)
  then show ?thesis by (simp add: saveState_emits)
qed

lemma updateStep_frame:
  assumes "updateStep st pPath s status ex w = (x, w')"
    and "q \<noteq> tmpFilePath pPath" "q \<noteq> stateFilePath pPath"
  shows "fs w' q = fs w q"
proof -
  from assms(1) have "w' = snd (saveState pPath (assign_extra ex (st\<lparr>steps := set_step s status (steps st)\<rparr>)) w)"
    by (simp add: updateStep_def)
  then show ?thesis by (simp add: saveState_frame [OF assms(2,3)])
qed

lemma get_set_step: "get_step k (set_step s v t) = (if k = s then v else get_step k t)"
  by (cases k; cases s) simp_all

lemma assign_extra_fields:
  "steps (assign_extra ex st) = steps st"
  "components (assign_extra ex st) = components st"
  "freshCreation (assign_extra ex st) = freshCreation st"
  by (cases ex; simp)+

section \<open>The time budget of the fallback loop\<close>

lemma install_loop_append:
  "install_loop run pPath timeout startTime (pre @ post) installed failed w =
    (case install_loop run pPath timeout startTime pre installed failed w of
       (Inl sg, w') \<Rightarrow> (Inl sg, w')
     | (Inr (i, f), w') \<Rightarrow> install_loop run pPath timeout startTime post i f w')"
proof (induction pre arbitrary: installed failed w)
  case Nil
  show ?case by simp
next
  case (Cons name rest)
  show ?case
    by (simp add: Let_def Cons.IH split: prod.splits answer.splits)
qed

lemma install_loop_head:
  assumes "remaining = timeout - (clock w - startTime)" and big: "5000 < remaining"
  shows "\<exists>evs. trace (snd (install_loop run pPath timeout startTime (name # rest) installed failed w))
             = trace w @ EvSpawn ''npx'' (add_args pPath [name]) pPath (min 60000 remaining) # evs"
proof -
  let ?P = "\<lambda>e. spawn_step e = Some ComponentInstall"
  let ?rc = "runCommand run ''npx'' (add_args pPath [name]) pPath (min 60000 remaining) w"
  let ?res = "install_loop run pPath timeout startTime (name # rest) installed failed w"
  have tr: "trace (snd ?rc) = trace w @ [EvSpawn ''npx'' (add_args pPath [name]) pPath (min 60000 remaining)]"
    by (rule runCommand_trace)
  obtain a w1 where rc: "?rc = (a, w1)" by (cases ?rc)
  have "\<exists>i f. snd ?res = w1 \<or> snd ?res = snd (install_loop run pPath timeout startTime rest i f w1)"
    using big assms rc by (auto simp: Let_def split: answer.splits)
  then obtain i f where
    "snd ?res = w1 \<or> snd ?res = snd (install_loop run pPath timeout startTime rest i f w1)"
    by blast
  moreover have "emits ?P w1 w1" by (rule emits_refl)
  moreover have "emits ?P w1 (snd (install_loop run pPath timeout startTime rest i f w1))"
    by (rule install_loop_emits)
  ultimately have "emits ?P w1 (snd ?res)" by auto
  from emitsD [OF this] have "trace (snd ?res) = trace w1 @ new_events w1 (snd ?res)" by simp
  with tr rc show ?thesis by simp
qed

lemma installComponents_fallback:
  assumes ne: "comps \<noteq> []"
    and batch: "runCommand run ''npx'' (add_args pPath comps) pPath timeout w = (a, w0)"
    and failed: "case a of Resolved r \<Rightarrow> rr_code r \<noteq> Some 0 | Rejected m \<Rightarrow> True
                 | Interrupted sg \<Rightarrow> False"
  shows "installComponents run pPath comps timeout w
      = install_fallback run pPath timeout (clock w) comps w0"
  using assms by (cases a) (simp_all add: installComponents_def Let_def)

text \<open>
  C3. The fallback loop of \<open>installComponents\<close> runs after a failed batch installation.
  Before each item, whatever its position in the list, the remaining budget is the total
  timeout given to \<open>installComponents\<close> minus the time elapsed since \<open>installComponents\<close>
  started, that is, since before the batch installation: the batch and every earlier
  attempt count against it. If the remaining budget is at or below the 5-second reserve,
  the item and every item after it are marked failed and nothing more happens: the result
  is returned in the world the earlier items left. Otherwise the next thing that happens is
  the install attempt for the item, with timeout min(60 seconds, remaining).
\<close>

theorem install_loop_budget:
  assumes "comps = pre @ name # rest"
    and "runCommand run ''npx'' (add_args pPath comps) pPath timeout w = (a, w0)"
    and "case a of Resolved r \<Rightarrow> rr_code r \<noteq> Some 0 | Rejected m \<Rightarrow> True
         | Interrupted sg \<Rightarrow> False"
    and "install_loop run pPath timeout (clock w) pre [] [] w0 = (Inr (installed, failed), wi)"
    and "remaining = timeout - (clock wi - clock w)"
  shows "(remaining \<le> 5000 \<longrightarrow>
            installComponents run pPath comps timeout w
              = (Inr \<lparr>ir_success = False, ir_installed = installed,
                      ir_failed = failed @ name # rest\<rparr>, wi))
    \<and> (5000 < remaining \<longrightarrow>
          (\<exists>evs. trace (snd (installComponents run pPath comps timeout w))
             = trace wi @ EvSpawn ''npx'' (add_args pPath [name]) pPath (min 60000 remaining) # evs))"
proof -
  from assms(1) have ne: "comps \<noteq> []" by simp
  have ic: "installComponents run pPath comps timeout w
      = install_fallback run pPath timeout (clock w) comps w0"
    using ne assms(2,3) by (rule installComponents_fallback)
  have lp: "install_loop run pPath timeout (clock w) comps [] [] w0
      = install_loop run pPath timeout (clock w) (name # rest) installed failed wi"
    using assms(1,4) by (simp add: install_loop_append)
  show ?thesis
  proof (intro conjI impI)
    assume "remaining \<le> 5000"
    with assms(5) have "timeout - (clock wi - clock w) \<le> 5000" by simp
    from install_loop_exhausted [OF this]
    have "install_loop run pPath timeout (clock w) (name # rest) installed failed wi
        = (Inr (installed, failed @ name # rest), wi)" .
    with ic lp show "installComponents run pPath comps timeout w
        = (Inr \<lparr>ir_success = False, ir_installed = installed,
                ir_failed = failed @ name # rest\<rparr>, wi)"
      by (simp add: install_fallback_def)
  next
    assume big: "5000 < remaining"
    have "snd (installComponents run pPath comps timeout w)
        = snd (install_loop run pPath timeout (clock w) (name # rest) installed failed wi)"
      using ic lp by (simp add: install_fallback_def split: prod.splits sum.splits)
    with install_loop_head [OF assms(5) big]
    show "\<exists>evs. trace (snd (installComponents run pPath comps timeout w))
        = trace wi @ EvSpawn ''npx'' (add_args pPath [name]) pPath (min 60000 remaining) # evs"
      by simp
  qed
qed

text \<open>
  Six components and a total timeout of 300 seconds; the batch fails after 10 seconds and
  every individual installation hangs until it is killed. The first four items are
  attempted with the 60-second cap; before the fifth item 50 seconds remain and it is
  attempted with a 50-second timeout; before the sixth nothing remains and it is marked
  failed without an attempt.
\<close>

theorem install_loop_budget_witness:
  "trace (snd (installComponents hanging ''/w/app'' six_components 300000 w_bootstrapped))
     = [EvSpawn ''npx'' (add_args ''/w/app'' six_components) ''/w/app'' 300000,
        EvSpawn ''npx'' (add_args ''/w/app'' [''button'']) ''/w/app'' 60000,
        EvSpawn ''npx'' (add_args ''/w/app'' [''card'']) ''/w/app'' 60000,
        EvSpawn ''npx'' (add_args ''/w/app'' [''badge'']) ''/w/app'' 60000,
        EvSpawn ''npx'' (add_args ''/w/app'' [''input'']) ''/w/app'' 60000,
        EvSpawn ''npx'' (add_args ''/w/app'' [''tabs'']) ''/w/app'' 50000]
   \<and> fst (installComponents hanging ''/w/app'' six_components 300000 w_bootstrapped)
     = Inr \<lparr>ir_success = False, ir_installed = [], ir_failed = six_components\<rparr>
   \<and> clock (snd (installComponents hanging ''/w/app'' six_components 300000 w_bootstrapped))
     = clock w_bootstrapped + 300000"
proof -
  let ?w = "w_bootstrapped"
  let ?ic = "installComponents hanging ''/w/app'' six_components 300000 ?w"
  let ?b = "runCommand hanging ''npx'' (add_args ''/w/app'' six_components) ''/w/app'' 300000 ?w"
  let ?l4 = "install_loop hanging ''/w/app'' 300000 (clock ?w)
      [''button'', ''card'', ''badge'', ''input''] [] [] (snd ?b)"
  let ?l5 = "install_loop hanging ''/w/app'' 300000 (clock ?w)
      [''button'', ''card'', ''badge'', ''input'', ''tabs''] [] [] (snd ?b)"
  have c5: "six_components = [''button'', ''card'', ''badge'', ''input''] @ ''tabs'' # [''table'']"
    and c6: "six_components = [''button'', ''card'', ''badge'', ''input'', ''tabs''] @ ''table'' # []"
    by (simp_all add: six_components_def)
  have b: "?b = (fst ?b, snd ?b)" by simp
  have bf: "case fst ?b of Resolved r \<Rightarrow> rr_code r \<noteq> Some 0 | Rejected m \<Rightarrow> True
         | Interrupted sg \<Rightarrow> False"
    by code_simp
  have "fst ?l4 = Inr ([], [''button'', ''card'', ''badge'', ''input''])" by code_simp
  then have l4: "?l4 = (Inr ([], [''button'', ''card'', ''badge'', ''input'']), snd ?l4)"
    by (simp add: prod_eq_iff)
  have "fst ?l5 = Inr ([], [''button'', ''card'', ''badge'', ''input'', ''tabs''])" by code_simp
  then have l5: "?l5 = (Inr ([], [''button'', ''card'', ''badge'', ''input'', ''tabs'']), snd ?l5)"
    by (simp add: prod_eq_iff)
  have r4: "(50000::int) = 300000 - (clock (snd ?l4) - clock ?w)" by code_simp
  have r5: "(0::int) = 300000 - (clock (snd ?l5) - clock ?w)" by code_simp
  have t4: "trace (snd ?l4)
     = [EvSpawn ''npx'' (add_args ''/w/app'' six_components) ''/w/app'' 300000,
        EvSpawn ''npx'' (add_args ''/w/app'' [''button'']) ''/w/app'' 60000,
        EvSpawn ''npx'' (add_args ''/w/app'' [''card'']) ''/w/app'' 60000,
        EvSpawn ''npx'' (add_args ''/w/app'' [''badge'']) ''/w/app'' 60000,
        EvSpawn ''npx'' (add_args ''/w/app'' [''input'']) ''/w/app'' 60000]"
    by code_simp
  have t5: "trace (snd ?l5) = trace (snd ?l4)
        @ [EvSpawn ''npx'' (add_args ''/w/app'' [''tabs'']) ''/w/app'' 50000]"
    by code_simp
  from install_loop_budget [OF c6 b bf l5 r5]
  have last: "?ic = (Inr \<lparr>ir_success = False, ir_installed = [],
        ir_failed = [''button'', ''card'', ''badge'', ''input'', ''tabs''] @ ''table'' # []\<rparr>, snd ?l5)"
    by simp
  from install_loop_budget [OF c5 b bf l4 r4]
  obtain evs where "trace (snd ?ic)
      = trace (snd ?l4) @ EvSpawn ''npx'' (add_args ''/w/app'' [''tabs'']) ''/w/app'' (min 60000 50000) # evs"
    by auto
  with last t5 have evs: "evs = []" by simp
  have tr: "trace (snd ?ic)
     = [EvSpawn ''npx'' (add_args ''/w/app'' six_components) ''/w/app'' 300000,
        EvSpawn ''npx'' (add_args ''/w/app'' [''button'']) ''/w/app'' 60000,
        EvSpawn ''npx'' (add_args ''/w/app'' [''card'']) ''/w/app'' 60000,
        EvSpawn ''npx'' (add_args ''/w/app'' [''badge'']) ''/w/app'' 60000,
        EvSpawn ''npx'' (add_args ''/w/app'' [''input'']) ''/w/app'' 60000,
        EvSpawn ''npx'' (add_args ''/w/app'' [''tabs'']) ''/w/app'' 50000]"
    using last t5 t4 by simp
  have res: "fst ?ic = Inr \<lparr>ir_success = False, ir_installed = [], ir_failed = six_components\<rparr>"
    using last by (simp add: six_components_def)
  have ck: "clock (snd ?ic) = clock ?w + 300000"
    using last r5 by simp
  from tr res ck show ?thesis by blast
qed

section \<open>Installed and failed components\<close>

lemma interrupted_exit: "interrupted sg st pPath w = (x, w') \<Longrightarrow> x = Inl (Exit EXIT_FAILURE None)"
  by (auto simp: interrupted_def handler_def Let_def split: prod.splits)

lemma step_componentInstall_ran:
  assumes "get_step ComponentInstall (steps state) \<noteq> Done"
    and "step_componentInstall run pPath state w = (Inr st', w')"
  shows "\<exists>st1 w1 r w2.
      updateStep state pPath ComponentInstall Running NoExtra w = ((None, st1), w1)
    \<and> installComponents run pPath (components st1) TIMEOUT_componentInstall w1 = (Inr r, w2)
    \<and> updateStep st1 pPath ComponentInstall Done (ComponentsExtra (ir_installed r) (ir_failed r)) w2
        = ((None, st'), w')"
  using assms
  by (auto simp: step_componentInstall_def split: prod.splits option.splits sum.splits
      dest: interrupted_exit)

lemma templates_all_distinct: "list_all (\<lambda>t. distinct (snd t)) TEMPLATES"
  by code_simp

lemma templates_distinct:
  assumes "map_of TEMPLATES tmpl = Some cs"
  shows "distinct cs"
proof -
  from assms have "(tmpl, cs) \<in> set TEMPLATES" by (rule map_of_SomeD)
  with templates_all_distinct show ?thesis by (auto simp only: list_all_iff snd_conv)
qed

lemma resolve_components_distinct: "distinct (snd (resolve_components tmpl comps))"
proof (cases "tmpl = ''custom''")
  case True
  then show ?thesis by (simp add: resolve_components_def Let_def distinct_new_Set)
next
  case False
  show ?thesis
  proof (cases "map_of TEMPLATES tmpl")
    case None
    with False show ?thesis by (simp add: resolve_components_def)
  next
    case (Some cs)
    with False templates_distinct [OF Some] show ?thesis by (simp add: resolve_components_def)
  qed
qed

lemma resolvedComponents_distinct: "distinct (resolvedComponents (validateInputs a w))"
proof -
  obtain errs resolved where r: "resolve_components (cli_template a) (cli_components a) = (errs, resolved)"
    by (cases "resolve_components (cli_template a) (cli_components a)")
  with resolve_components_distinct [of "cli_template a" "cli_components a"]
  have "distinct resolved" by simp
  with r show ?thesis by (simp add: validateInputs_def Let_def split: prod.splits)
qed

lemma installComponents_exhausted:
  assumes ne: "comps \<noteq> []" and split: "comps = pre @ post"
    and batch: "runCommand run ''npx'' (add_args pPath comps) pPath timeout w = (b, wb)"
    and failed: "case b of Resolved r \<Rightarrow> rr_code r \<noteq> Some 0 | Rejected m \<Rightarrow> True
                 | Interrupted sg \<Rightarrow> False"
    and loop: "install_loop run pPath timeout (clock w) pre [] [] wb = (Inr (i, f), wi)"
    and low: "timeout - (clock wi - clock w) \<le> 5000"
  shows "installComponents run pPath comps timeout w
      = (Inr \<lparr>ir_success = (f @ post = []), ir_installed = i, ir_failed = f @ post\<rparr>, wi)"
proof -
  have "installComponents run pPath comps timeout w
      = install_fallback run pPath timeout (clock w) comps wb"
    using ne batch failed by (rule installComponents_fallback)
  moreover have "install_loop run pPath timeout (clock w) comps [] [] wb
      = install_loop run pPath timeout (clock w) post i f wi"
    using split loop by (simp add: install_loop_append)
  moreover note install_loop_exhausted [OF low, of run pPath post i f]
  ultimately show ?thesis by (simp add: install_fallback_def)
qed

text \<open>
  C4 (as amended). Validation always resolves a duplicate-free component list, and the
  state of a fresh run records that list. For every duplicate-free input component list, a
  result of the installer has disjoint installed and failed lists whose union is the input
  and whose sizes sum to the length of the input, so to at most that: every item is in
  exactly one of the two. The items that the fallback loop reaches with the budget
  exhausted are all in failed: the result is the lists as the earlier items left them, with
  the remaining items appended to failed. When the componentInstall step has run on a state
  whose component list is duplicate-free, the same holds of the \<open>installedComponents\<close> and
  \<open>failedComponents\<close> fields of the state, which is the document the checkpoint then holds.
\<close>

theorem installer_partition:
  "distinct (resolvedComponents (validateInputs a w0))
   \<and> (existingState (validateInputs a w0) = None \<longrightarrow>
        components (initial_state a (validateInputs a w0) w0)
          = resolvedComponents (validateInputs a w0))
   \<and> (distinct comps \<and> installComponents run pPath comps timeout w = (Inr r, w') \<longrightarrow>
          set (ir_installed r) \<inter> set (ir_failed r) = {}
        \<and> set (ir_installed r) \<union> set (ir_failed r) = set comps
        \<and> length (ir_installed r) + length (ir_failed r) = length comps
        \<and> length (ir_installed r) + length (ir_failed r) \<le> length comps)
   \<and> (comps \<noteq> [] \<and> comps = pre @ post
        \<and> runCommand run ''npx'' (add_args pPath comps) pPath timeout w = (b, wb)
        \<and> (case b of Resolved rr \<Rightarrow> rr_code rr \<noteq> Some 0 | Rejected m \<Rightarrow> True
            | Interrupted sg \<Rightarrow> False)
        \<and> install_loop run pPath timeout (clock w) pre [] [] wb = (Inr (i, f), wi)
        \<and> timeout - (clock wi - clock w) \<le> 5000 \<longrightarrow>
          installComponents run pPath comps timeout w
            = (Inr \<lparr>ir_success = (f @ post = []), ir_installed = i, ir_failed = f @ post\<rparr>, wi))
   \<and> (distinct (components state) \<and> get_step ComponentInstall (steps state) \<noteq> Done
        \<and> step_componentInstall run pPath state w = (Inr st', w'') \<longrightarrow>
          set (installedComponents st') \<inter> set (failedComponents st') = {}
        \<and> set (installedComponents st') \<union> set (failedComponents st') = set (components state)
        \<and> length (installedComponents st') + length (failedComponents st')
            = length (components state)
        \<and> length (installedComponents st') + length (failedComponents st')
            \<le> length (components state)
        \<and> fs w'' (stateFilePath pPath) = Some (File (Doc st')))"
proof (intro conjI impI)
  show "distinct (resolvedComponents (validateInputs a w0))"
    by (rule resolvedComponents_distinct)
next
  assume "existingState (validateInputs a w0) = None"
  then show "components (initial_state a (validateInputs a w0) w0)
      = resolvedComponents (validateInputs a w0)"
    by (simp add: initial_state_def createInitialState_def)
next
  assume a: "distinct comps \<and> installComponents run pPath comps timeout w = (Inr r, w')"
  then have "installComponents run pPath comps timeout w = (Inr r, w')" by simp
  from installComponents_partition [OF this] a
  show "set (ir_installed r) \<inter> set (ir_failed r) = {}"
    and "set (ir_installed r) \<union> set (ir_failed r) = set comps"
    and "length (ir_installed r) + length (ir_failed r) = length comps"
    and "length (ir_installed r) + length (ir_failed r) \<le> length comps"
    by simp_all
next
  assume "comps \<noteq> [] \<and> comps = pre @ post
        \<and> runCommand run ''npx'' (add_args pPath comps) pPath timeout w = (b, wb)
        \<and> (case b of Resolved rr \<Rightarrow> rr_code rr \<noteq> Some 0 | Rejected m \<Rightarrow> True
            | Interrupted sg \<Rightarrow> False)
        \<and> install_loop run pPath timeout (clock w) pre [] [] wb = (Inr (i, f), wi)
        \<and> timeout - (clock wi - clock w) \<le> 5000"
  then show "installComponents run pPath comps timeout w
      = (Inr \<lparr>ir_success = (f @ post = []), ir_installed = i, ir_failed = f @ post\<rparr>, wi)"
    by (elim conjE) (rule installComponents_exhausted; assumption)
next
  assume a: "distinct (components state) \<and> get_step ComponentInstall (steps state) \<noteq> Done
        \<and> step_componentInstall run pPath state w = (Inr st', w'')"
  then obtain st1 w1 res w2 where
    u1: "updateStep state pPath ComponentInstall Running NoExtra w = ((None, st1), w1)"
    and ic: "installComponents run pPath (components st1) TIMEOUT_componentInstall w1 = (Inr res, w2)"
    and u2: "updateStep st1 pPath ComponentInstall Done (ComponentsExtra (ir_installed res) (ir_failed res)) w2
        = ((None, st'), w'')"
    using step_componentInstall_ran [of state run pPath w st' w''] by blast
  from updateStep_ok [OF u1] have c1: "components st1 = components state" by simp
  from updateStep_ok [OF u2] have st': "installedComponents st' = ir_installed res"
      "failedComponents st' = ir_failed res"
    and c2: "components st' = components st1"
    and disk: "fs w'' (stateFilePath pPath) = Some (File (Doc st'))"
    by simp_all
  from installComponents_partition [OF ic] c1 a
  have "set (ir_installed res) \<inter> set (ir_failed res) = {}"
    and "set (ir_installed res) \<union> set (ir_failed res) = set (components state)"
    and "length (ir_installed res) + length (ir_failed res) = length (components state)"
    by simp_all
  with st' disk
  show "set (installedComponents st') \<inter> set (failedComponents st') = {}"
    and "set (installedComponents st') \<union> set (failedComponents st') = set (components state)"
    and "length (installedComponents st') + length (failedComponents st')
            = length (components state)"
    and "length (installedComponents st') + length (failedComponents st')
            \<le> length (components state)"
    and "fs w'' (stateFilePath pPath) = Some (File (Doc st'))"
    by simp_all
qed

text \<open>
  The batch call and the first two individual calls fail, the later ones succeed: two
  components end in failed, two in installed. With commands that hang until they are
  killed, the sixth of six components is reached with the budget exhausted and ends in
  failed with the five attempted before it. The component list \<open>button, button\<close> is resolved
  to \<open>button\<close>.
\<close>

theorem installer_partition_witness:
  "distinct (components st_initialised)
   \<and> fst (installComponents (sim flaky) ''/w/app'' (components st_initialised) 300000
            (w_bootstrapped\<lparr>clock := 6000\<rparr>))
       = Inr \<lparr>ir_success = False, ir_installed = [''badge'', ''input''],
              ir_failed = [''button'', ''card'']\<rparr>
   \<and> get_step ComponentInstall (steps st_initialised) \<noteq> Done
   \<and> (case fst (step_componentInstall (sim flaky) ''/w/app'' st_initialised (w_bootstrapped\<lparr>clock := 6000\<rparr>)) of
         Inr st' \<Rightarrow> installedComponents st' = [''badge'', ''input'']
                     \<and> failedComponents st' = [''button'', ''card'']
                     \<and> set (installedComponents st') \<inter> set (failedComponents st') = {}
                     \<and> set (installedComponents st') \<union> set (failedComponents st')
                         = set (components st_initialised)
       | Inl ex \<Rightarrow> False)
   \<and> resolvedComponents (validateInputs args_duplicate w_parent) = [''button'']
   \<and> distinct (resolvedComponents (validateInputs args_duplicate w_parent))
   \<and> fst (installComponents hanging ''/w/app'' six_components 300000 w_bootstrapped)
       = Inr \<lparr>ir_success = False, ir_installed = [], ir_failed = six_components\<rparr>"
proof -
  let ?w = "w_bootstrapped\<lparr>clock := 6000\<rparr>"
  let ?ic = "installComponents (sim flaky) ''/w/app'' (components st_initialised) 300000 ?w"
  let ?sc = "step_componentInstall (sim flaky) ''/w/app'' st_initialised ?w"
  have d: "distinct (components st_initialised)" by code_simp
  have nd: "get_step ComponentInstall (steps st_initialised) \<noteq> Done" by code_simp
  have ic: "fst ?ic = Inr \<lparr>ir_success = False, ir_installed = [''badge'', ''input''],
              ir_failed = [''button'', ''card'']\<rparr>"
    by code_simp
  have sc: "case fst ?sc of
         Inr st' \<Rightarrow> installedComponents st' = [''badge'', ''input'']
                     \<and> failedComponents st' = [''button'', ''card'']
       | Inl ex \<Rightarrow> False"
    by code_simp
  then obtain st' where st': "fst ?sc = Inr st'"
    "installedComponents st' = [''badge'', ''input'']" "failedComponents st' = [''button'', ''card'']"
    by (cases "fst ?sc") auto
  then have run: "?sc = (Inr st', snd ?sc)" by (metis prod.collapse)
  note p1 = installer_partition [where state = st_initialised and run = "sim flaky"
      and pPath = "''/w/app''" and w = ?w and st' = st' and w'' = "snd ?sc"
      and a = args_duplicate and ?w0.0 = w_parent]
  from d nd run
  have h1: "distinct (components st_initialised) \<and> get_step ComponentInstall (steps st_initialised) \<noteq> Done
        \<and> step_componentInstall (sim flaky) ''/w/app'' st_initialised ?w = (Inr st', snd ?sc)"
    by (intro conjI)
  from mp [OF p1 [THEN conjunct2, THEN conjunct2, THEN conjunct2, THEN conjunct2] h1]
  have parts: "set (installedComponents st') \<inter> set (failedComponents st') = {}
      \<and> set (installedComponents st') \<union> set (failedComponents st') = set (components st_initialised)"
    by simp
  from p1 [THEN conjunct1]
  have dr: "distinct (resolvedComponents (validateInputs args_duplicate w_parent))" .
  have rc: "resolvedComponents (validateInputs args_duplicate w_parent) = [''button'']"
    by code_simp
  let ?b = "runCommand hanging ''npx'' (add_args ''/w/app'' six_components) ''/w/app'' 300000 w_bootstrapped"
  let ?l5 = "install_loop hanging ''/w/app'' 300000 (clock w_bootstrapped)
      [''button'', ''card'', ''badge'', ''input'', ''tabs''] [] [] (snd ?b)"
  have ne: "six_components \<noteq> []"
    and c6: "six_components = [''button'', ''card'', ''badge'', ''input'', ''tabs''] @ [''table'']"
    by (simp_all add: six_components_def)
  have b: "?b = (fst ?b, snd ?b)" by simp
  have bf: "case fst ?b of Resolved rr \<Rightarrow> rr_code rr \<noteq> Some 0 | Rejected m \<Rightarrow> True
         | Interrupted sg \<Rightarrow> False"
    by code_simp
  have "fst ?l5 = Inr ([], [''button'', ''card'', ''badge'', ''input'', ''tabs''])" by code_simp
  then have l5: "?l5 = (Inr ([], [''button'', ''card'', ''badge'', ''input'', ''tabs'']), snd ?l5)"
    by (simp add: prod_eq_iff)
  have low: "300000 - (clock (snd ?l5) - clock w_bootstrapped) \<le> 5000" by code_simp
  note p2 = installer_partition [where comps = six_components and run = hanging
      and pPath = "''/w/app''" and timeout = 300000 and w = w_bootstrapped
      and pre = "[''button'', ''card'', ''badge'', ''input'', ''tabs'']" and post = "[''table'']"
      and b = "fst ?b" and wb = "snd ?b" and i = "[]"
      and f = "[''button'', ''card'', ''badge'', ''input'', ''tabs'']" and wi = "snd ?l5"]
  from ne c6 b bf l5 low
  have h2: "six_components \<noteq> []
        \<and> six_components = [''button'', ''card'', ''badge'', ''input'', ''tabs''] @ [''table'']
        \<and> runCommand hanging ''npx'' (add_args ''/w/app'' six_components) ''/w/app'' 300000 w_bootstrapped
            = (fst ?b, snd ?b)
        \<and> (case fst ?b of Resolved rr \<Rightarrow> rr_code rr \<noteq> Some 0 | Rejected m \<Rightarrow> True
            | Interrupted sg \<Rightarrow> False)
        \<and> install_loop hanging ''/w/app'' 300000 (clock w_bootstrapped)
              [''button'', ''card'', ''badge'', ''input'', ''tabs''] [] [] (snd ?b)
            = (Inr ([], [''button'', ''card'', ''badge'', ''input'', ''tabs'']), snd ?l5)
        \<and> 300000 - (clock (snd ?l5) - clock w_bootstrapped) \<le> 5000"
    by (intro conjI)
  from mp [OF p2 [THEN conjunct2, THEN conjunct2, THEN conjunct2, THEN conjunct1] h2]
  have "installComponents hanging ''/w/app'' six_components 300000 w_bootstrapped
      = (Inr \<lparr>ir_success = ([''button'', ''card'', ''badge'', ''input'', ''tabs''] @ [''table''] = []),
              ir_installed = [],
              ir_failed = [''button'', ''card'', ''badge'', ''input'', ''tabs''] @ [''table'']\<rparr>,
         snd ?l5)" .
  then have ex: "fst (installComponents hanging ''/w/app'' six_components 300000 w_bootstrapped)
       = Inr \<lparr>ir_success = False, ir_installed = [], ir_failed = six_components\<rparr>"
    by (simp add: six_components_def)
  from st'(1) st'(2,3) parts
  have cs: "case fst ?sc of
         Inr st' \<Rightarrow> installedComponents st' = [''badge'', ''input'']
                     \<and> failedComponents st' = [''button'', ''card'']
                     \<and> set (installedComponents st') \<inter> set (failedComponents st') = {}
                     \<and> set (installedComponents st') \<union> set (failedComponents st')
                         = set (components st_initialised)
       | Inl ex \<Rightarrow> False"
    by simp
  from d ic nd cs rc dr ex show ?thesis by (intro conjI)
qed

text \<open>
  C4 as stated fails on a list that names a component twice: the first attempt of the item
  can fail and the second succeed, which puts the name in both lists.
\<close>

theorem installer_duplicate_counterexample:
  "fst (installComponents (sim flaky) ''/w/app'' [''card'', ''card''] 300000 w_bootstrapped)
     = Inr \<lparr>ir_success = False, ir_installed = [''card''], ir_failed = [''card'']\<rparr>
   \<and> set [''card''] \<inter> set [''card''] \<noteq> ({} :: string set)"
  by code_simp

section \<open>Facts about the steps\<close>

lemma cleanup_emits: "emits (\<lambda>e. e = EvRm pPath) w (cleanup pPath w)"
proof (cases "existsSync pPath w")
  case True
  then have "trace (cleanup pPath w) = trace w @ [EvRm pPath]"
    by (simp add: cleanup_def rmSync_def emit_def)
  then show ?thesis by (rule emitsI) simp
next
  case False
  then show ?thesis by (simp add: cleanup_def emits_refl)
qed

lemma interrupted_emits:
  assumes "interrupted sg st pPath w = (x, w')"
  shows "emits (is_persist pPath) w w'"
proof -
  from assms have "w' = snd (saveState pPath
      (st\<lparr>steps := relabel_running (steps st), error := Some (InterruptedMsg sg)\<rparr>) w)"
    by (auto simp: interrupted_def handler_def Let_def split: prod.splits)
  then show ?thesis by (simp add: saveState_emits)
qed

lemma updateStep_fields:
  assumes "updateStep st pPath s status ex w = ((None, st'), w')"
  shows "get_step k (steps st') = (if k = s then status else get_step k (steps st))"
    and "freshCreation st' = freshCreation st"
    and "components st' = components st"
  using updateStep_ok [OF assms] by (simp_all add: assign_extra_fields get_set_step)

lemma blocking_step_cases:
  assumes "get_step s (steps state) \<noteq> Done"
    and "blocking_step s action pPath state w = (x, w')"
  obtains
    (persist_failed) e st1 where
      "updateStep state pPath s Running NoExtra w = ((Some e, st1), w')" "x = Inl uncaught"
  | (interrupt) st1 w1 sg w2 where
      "updateStep state pPath s Running NoExtra w = ((None, st1), w1)"
      "action w1 = (Inl sg, w2)" "interrupted sg st1 pPath w2 = (x, w')"
  | (failed_unsaved) st1 w1 m w2 e st2 where
      "updateStep state pPath s Running NoExtra w = ((None, st1), w1)"
      "action w1 = (Inr (Failure m), w2)"
      "updateStep st1 pPath s Failed (ErrorExtra m) w2 = ((Some e, st2), w')" "x = Inl uncaught"
  | (failed) st1 w1 m w2 st2 w3 where
      "updateStep state pPath s Running NoExtra w = ((None, st1), w1)"
      "action w1 = (Inr (Failure m), w2)"
      "updateStep st1 pPath s Failed (ErrorExtra m) w2 = ((None, st2), w3)"
      "x = Inl (Exit EXIT_FAILURE (Some st2))"
      "w' = (if freshCreation st2 then cleanup pPath w3 else w3)"
  | (completed_unsaved) st1 w1 w2 e st2 where
      "updateStep state pPath s Running NoExtra w = ((None, st1), w1)"
      "action w1 = (Inr Success, w2)"
      "updateStep st1 pPath s Done NoExtra w2 = ((Some e, st2), w')" "x = Inl uncaught"
  | (completed) st1 w1 w2 st2 where
      "updateStep state pPath s Running NoExtra w = ((None, st1), w1)"
      "action w1 = (Inr Success, w2)"
      "updateStep st1 pPath s Done NoExtra w2 = ((None, st2), w')" "x = Inr st2"
  using assms
  by (auto simp: blocking_step_def split: prod.splits option.splits sum.splits step_result.splits)


lemma persist_weaken:
  "updateStep st pPath s status ex w = (x, w') \<Longrightarrow> emits (\<lambda>e. is_persist pPath e \<or> R e) w w'"
  by (rule emits_mono [OF updateStep_emits]) auto

lemma interrupted_weaken:
  "interrupted sg st pPath w = (x, w') \<Longrightarrow> emits (\<lambda>e. is_persist pPath e \<or> R e) w w'"
  by (rule emits_mono [OF interrupted_emits]) auto

lemma step_post_InlI:
  "get_step s (steps state) \<noteq> Done \<Longrightarrow> step_post pPath s state (Inl uncaught, w')"
  by (simp add: step_post_def uncaught_def)

lemma step_post_interrupted:
  "get_step s (steps state) \<noteq> Done \<Longrightarrow> interrupted sg st pPath w = (x, w') \<Longrightarrow>
   step_post pPath s state (x, w')"
  by (auto simp: step_post_def dest!: interrupted_exit)

lemma step_post_failed:
  assumes "get_step s (steps state) \<noteq> Done"
    and "updateStep st1 pPath s Failed ex w2 = ((None, st2), w3)"
  shows "step_post pPath s state (Inl (Exit EXIT_FAILURE (Some st2)), w')"
  using assms(1) updateStep_fields(1) [OF assms(2), of s]
  by (simp add: step_post_def)

lemma step_post_done:
  assumes "updateStep state pPath s Running NoExtra w = ((None, st1), w1)"
    and "updateStep st1 pPath s Done ex w2 = ((None, st2), w')"
  shows "step_post pPath s state (Inr st2, w')"
proof -
  have "get_step k (steps st2) = (if k = s then Done else get_step k (steps state))" for k
    using updateStep_fields(1) [OF assms(1), of k] updateStep_fields(1) [OF assms(2), of k]
    by simp
  moreover have "freshCreation st2 = freshCreation state" "components st2 = components state"
    using updateStep_fields(2,3) [OF assms(1)] updateStep_fields(2,3) [OF assms(2)] by simp_all
  moreover have "fs w' (stateFilePath pPath) = Some (File (Doc st2))"
    using updateStep_ok [OF assms(2)] by simp
  ultimately show ?thesis
    by (simp add: step_post_def all_steps_def)
qed

lemma blocking_step_spec:
  assumes act: "\<And>w1 a w2. action w1 = (a, w2) \<Longrightarrow> emits (\<lambda>e. spawn_step e = Some s) w1 w2"
    and run: "blocking_step s action pPath state w = (x, w')"
    and s: "s = NpmInstall \<or> s = ShadcnInit"
    and nd: "get_step s (steps state) \<noteq> Done"
  shows "emits (\<lambda>e. is_persist pPath e \<or> step_effect pPath s (freshCreation state) e) w w'"
    and "step_post pPath s state (x, w')"
proof -
  let ?Q = "\<lambda>e. is_persist pPath e \<or> step_effect pPath s (freshCreation state) e"
  have actQ: "emits ?Q w1 w2" if "action w1 = (a, w2)" for w1 a w2
    by (rule emits_mono [OF act [OF that]]) (simp add: step_effect_def)
  have rmQ: "emits ?Q w3 (cleanup pPath w3)" if "freshCreation state" for w3
    by (rule emits_mono [OF cleanup_emits]) (use that s in \<open>auto simp: step_effect_def\<close>)
  from nd run show "emits ?Q w w'"
  proof (cases rule: blocking_step_cases)
    case (persist_failed e st1)
    then show ?thesis by (auto intro: persist_weaken)
  next
    case (interrupt st1 w1 sg w2)
    then show ?thesis
      by (blast intro: emits_trans persist_weaken actQ interrupted_weaken)
  next
    case (failed_unsaved st1 w1 m w2 e st2)
    then show ?thesis
      by (blast intro: emits_trans persist_weaken actQ)
  next
    case (failed st1 w1 m w2 st2 w3)
    have fr: "freshCreation st2 = freshCreation state"
      using updateStep_fields(2) [OF failed(1)] updateStep_fields(2) [OF failed(3)] by simp
    have "emits ?Q w w3"
      using failed by (blast intro: emits_trans persist_weaken actQ)
    moreover have "emits ?Q w3 w'"
      using failed(5) fr rmQ by (auto simp: emits_refl)
    ultimately show ?thesis by (rule emits_trans)
  next
    case (completed_unsaved st1 w1 w2 e st2)
    then show ?thesis
      by (blast intro: emits_trans persist_weaken actQ)
  next
    case (completed st1 w1 w2 st2)
    then show ?thesis
      by (blast intro: emits_trans persist_weaken actQ)
  qed
  from nd run show "step_post pPath s state (x, w')"
  proof (cases rule: blocking_step_cases)
    case (persist_failed e st1)
    then show ?thesis using nd by (simp add: step_post_InlI)
  next
    case (interrupt st1 w1 sg w2)
    then show ?thesis using nd by (blast intro: step_post_interrupted)
  next
    case (failed_unsaved st1 w1 m w2 e st2)
    then show ?thesis using nd by (simp add: step_post_InlI)
  next
    case (failed st1 w1 m w2 st2 w3)
    then show ?thesis using nd by (auto intro: step_post_failed)
  next
    case (completed_unsaved st1 w1 w2 e st2)
    then show ?thesis using nd by (simp add: step_post_InlI)
  next
    case (completed st1 w1 w2 st2)
    then show ?thesis by (auto intro: step_post_done)
  qed
qed


lemma createViteProject_trace:
  "createViteProject run pName targetDir t w = (a, w') \<Longrightarrow>
   trace w' = trace w @ [EvSpawn ''npx'' [''create-vite@latest'', pName, ''--template'', ''react-ts''] targetDir t]"
  using runCommand_trace [of run "''npx''" "[''create-vite@latest'', pName, ''--template'', ''react-ts'']" targetDir t w]
  by (auto simp: createViteProject_def split: prod.splits answer.splits)

lemma npmInstall_cmd_trace:
  "npmInstall_cmd run pPath t w = (a, w') \<Longrightarrow>
   trace w' = trace w @ [EvSpawn ''npm'' [''install''] pPath t]"
  using runCommand_trace [of run "''npm''" "[''install'']" pPath t w]
  by (auto simp: npmInstall_cmd_def split: prod.splits answer.splits)

lemma initShadcn_trace:
  "initShadcn run pPath t w = (a, w') \<Longrightarrow>
   trace w' = trace w @ [EvSpawn ''npx''
      [''shadcn@latest'', ''init'', ''--yes'', ''--defaults'', ''--force'', ''--cwd'', pPath] pPath t]"
  using runCommand_trace [of run "''npx''"
      "[''shadcn@latest'', ''init'', ''--yes'', ''--defaults'', ''--force'', ''--cwd'', pPath]" pPath t w]
  by (auto simp: initShadcn_def split: prod.splits answer.splits)

lemma createViteProject_emits:
  "createViteProject run pName targetDir t w = (a, w') \<Longrightarrow>
   emits (\<lambda>e. spawn_step e = Some ViteCreate) w w'"
  by (rule emitsI [OF createViteProject_trace]) simp_all

lemma npmInstall_cmd_emits:
  "npmInstall_cmd run pPath t w = (a, w') \<Longrightarrow> emits (\<lambda>e. spawn_step e = Some NpmInstall) w w'"
  by (rule emitsI [OF npmInstall_cmd_trace]) simp_all

lemma initShadcn_emits:
  "initShadcn run pPath t w = (a, w') \<Longrightarrow> emits (\<lambda>e. spawn_step e = Some ShadcnInit) w w'"
  by (rule emitsI [OF initShadcn_trace]) (simp_all add: numeral_2_eq_2)

lemma installComponents_emits:
  assumes "installComponents run pPath comps t w = (a, w')"
  shows "emits (\<lambda>e. spawn_step e = Some ComponentInstall) w w'"
proof (cases "comps = []")
  case True
  with assms show ?thesis by (simp add: installComponents_def emits_refl)
next
  case False
  let ?P = "\<lambda>e. spawn_step e = Some ComponentInstall"
  let ?rc = "runCommand run ''npx'' (add_args pPath comps) pPath t w"
  obtain b w1 where rc: "?rc = (b, w1)" by (cases ?rc)
  have "emits ?P w (snd ?rc)"
    by (rule runCommand_emits) (rule spawn_step_add)
  with rc have e1: "emits ?P w w1" by simp
  have "w' = w1 \<or> w' = snd (install_loop run pPath t (clock w) comps [] [] w1)"
    using assms False rc
    by (auto simp: installComponents_def install_fallback_def Let_def
        split: prod.splits answer.splits if_splits sum.splits)
  then show ?thesis
    using e1 install_loop_emits [of w1 run pPath t "clock w" comps "[]" "[]"]
    by (auto intro: emits_trans)
qed

lemma step_viteCreate_cases:
  assumes "get_step ViteCreate (steps state) \<noteq> Done"
    and "step_viteCreate run pName targetDir pPath state w = (x, w')"
  obtains
    (interrupt) sg w1 where
      "createViteProject run pName targetDir TIMEOUT_viteCreate w = (Inl sg, w1)"
      "interrupted sg state pPath w1 = (x, w')"
  | (failed) m w1 where
      "createViteProject run pName targetDir TIMEOUT_viteCreate w = (Inr (Failure m), w1)"
      "w' = cleanup pPath w1"
      "x = Inl (Exit EXIT_FAILURE
             (Some (state\<lparr>steps := set_step ViteCreate Failed (steps state), error := Some m\<rparr>)))"
  | (completed_unsaved) w1 e st1 where
      "createViteProject run pName targetDir TIMEOUT_viteCreate w = (Inr Success, w1)"
      "updateStep state pPath ViteCreate Done NoExtra w1 = ((Some e, st1), w')" "x = Inl uncaught"
  | (completed) w1 st1 where
      "createViteProject run pName targetDir TIMEOUT_viteCreate w = (Inr Success, w1)"
      "updateStep state pPath ViteCreate Done NoExtra w1 = ((None, st1), w')" "x = Inr st1"
  using assms
  by (auto simp: step_viteCreate_def Let_def
      split: prod.splits option.splits sum.splits step_result.splits)

lemma step_viteCreate_spec:
  assumes run: "step_viteCreate run pName targetDir pPath state w = (x, w')"
    and nd: "get_step ViteCreate (steps state) \<noteq> Done"
  shows "emits (\<lambda>e. is_persist pPath e \<or> step_effect pPath ViteCreate (freshCreation state) e) w w'"
    and "step_post pPath ViteCreate state (x, w')"
proof -
  let ?Q = "\<lambda>e. is_persist pPath e \<or> step_effect pPath ViteCreate (freshCreation state) e"
  have actQ: "emits ?Q w1 w2" if "createViteProject run pName targetDir t w1 = (a, w2)" for w1 a w2 t
    by (rule emits_mono [OF createViteProject_emits [OF that]]) (simp add: step_effect_def)
  have rmQ: "emits ?Q w3 (cleanup pPath w3)" for w3
    by (rule emits_mono [OF cleanup_emits]) (auto simp: step_effect_def)
  from nd run show "emits ?Q w w'"
  proof (cases rule: step_viteCreate_cases)
    case (interrupt sg w1)
    then show ?thesis by (blast intro: emits_trans actQ interrupted_weaken)
  next
    case (failed m w1)
    then show ?thesis using rmQ [of w1] by (blast intro: emits_trans actQ)
  next
    case (completed_unsaved w1 e st1)
    then show ?thesis by (blast intro: emits_trans persist_weaken actQ)
  next
    case (completed w1 st1)
    then show ?thesis by (blast intro: emits_trans persist_weaken actQ)
  qed
  from nd run show "step_post pPath ViteCreate state (x, w')"
  proof (cases rule: step_viteCreate_cases)
    case (interrupt sg w1)
    then show ?thesis using nd by (blast intro: step_post_interrupted)
  next
    case (failed m w1)
    then show ?thesis using nd by (simp add: step_post_def)
  next
    case (completed_unsaved w1 e st1)
    then show ?thesis using nd by (simp add: step_post_InlI)
  next
    case (completed w1 st1)
    have "get_step k (steps st1) = (if k = ViteCreate then Done else get_step k (steps state))" for k
      using updateStep_fields(1) [OF completed(2), of k] by simp
    moreover have "freshCreation st1 = freshCreation state" "components st1 = components state"
      using updateStep_fields(2,3) [OF completed(2)] by simp_all
    moreover have "fs w' (stateFilePath pPath) = Some (File (Doc st1))"
      using updateStep_ok [OF completed(2)] by simp
    ultimately show ?thesis using completed(3)
      by (simp add: step_post_def all_steps_def)
  qed
qed

lemma step_componentInstall_cases:
  assumes "get_step ComponentInstall (steps state) \<noteq> Done"
    and "step_componentInstall run pPath state w = (x, w')"
  obtains
    (persist_failed) e st1 where
      "updateStep state pPath ComponentInstall Running NoExtra w = ((Some e, st1), w')"
      "x = Inl uncaught"
  | (interrupt) st1 w1 sg w2 where
      "updateStep state pPath ComponentInstall Running NoExtra w = ((None, st1), w1)"
      "installComponents run pPath (components st1) TIMEOUT_componentInstall w1 = (Inl sg, w2)"
      "interrupted sg st1 pPath w2 = (x, w')"
  | (completed_unsaved) st1 w1 r w2 e st2 where
      "updateStep state pPath ComponentInstall Running NoExtra w = ((None, st1), w1)"
      "installComponents run pPath (components st1) TIMEOUT_componentInstall w1 = (Inr r, w2)"
      "updateStep st1 pPath ComponentInstall Done (ComponentsExtra (ir_installed r) (ir_failed r)) w2
         = ((Some e, st2), w')"
      "x = Inl uncaught"
  | (completed) st1 w1 r w2 st2 where
      "updateStep state pPath ComponentInstall Running NoExtra w = ((None, st1), w1)"
      "installComponents run pPath (components st1) TIMEOUT_componentInstall w1 = (Inr r, w2)"
      "updateStep st1 pPath ComponentInstall Done (ComponentsExtra (ir_installed r) (ir_failed r)) w2
         = ((None, st2), w')"
      "x = Inr st2"
  using assms
  by (auto simp: step_componentInstall_def split: prod.splits option.splits sum.splits)

lemma step_componentInstall_spec:
  assumes run: "step_componentInstall run pPath state w = (x, w')"
    and nd: "get_step ComponentInstall (steps state) \<noteq> Done"
  shows "emits (\<lambda>e. is_persist pPath e \<or> step_effect pPath ComponentInstall (freshCreation state) e) w w'"
    and "step_post pPath ComponentInstall state (x, w')"
proof -
  let ?Q = "\<lambda>e. is_persist pPath e \<or> step_effect pPath ComponentInstall (freshCreation state) e"
  have actQ: "emits ?Q w1 w2" if "installComponents run pPath comps t w1 = (a, w2)" for w1 a w2 t comps
    by (rule emits_mono [OF installComponents_emits [OF that]]) (simp add: step_effect_def)
  from nd run show "emits ?Q w w'"
  proof (cases rule: step_componentInstall_cases)
    case (persist_failed e st1)
    then show ?thesis by (auto intro: persist_weaken)
  next
    case (interrupt st1 w1 sg w2)
    then show ?thesis by (blast intro: emits_trans persist_weaken actQ interrupted_weaken)
  next
    case (completed_unsaved st1 w1 r w2 e st2)
    then show ?thesis by (blast intro: emits_trans persist_weaken actQ)
  next
    case (completed st1 w1 r w2 st2)
    then show ?thesis by (blast intro: emits_trans persist_weaken actQ)
  qed
  from nd run show "step_post pPath ComponentInstall state (x, w')"
  proof (cases rule: step_componentInstall_cases)
    case (persist_failed e st1)
    then show ?thesis using nd by (simp add: step_post_InlI)
  next
    case (interrupt st1 w1 sg w2)
    then show ?thesis using nd by (blast intro: step_post_interrupted)
  next
    case (completed_unsaved st1 w1 r w2 e st2)
    then show ?thesis using nd by (simp add: step_post_InlI)
  next
    case (completed st1 w1 r w2 st2)
    then show ?thesis by (auto intro: step_post_done)
  qed
qed

lemma step_verification_cases:
  assumes "get_step Verification (steps state) \<noteq> Done"
    and "step_verification pPath state w = (x, w')"
  obtains
    (persist_failed) e st1 where
      "updateStep state pPath Verification Running NoExtra w = ((Some e, st1), w')"
      "x = Inl uncaught"
  | (failed_unsaved) st1 w1 e st2 where
      "updateStep state pPath Verification Running NoExtra w = ((None, st1), w1)"
      "\<not> vr_valid (verifyProject pPath (installedComponents st1) w1)"
      "updateStep st1 pPath Verification Failed
         (ErrorExtra (VerificationMsg (vr_missing (verifyProject pPath (installedComponents st1) w1)))) w1
         = ((Some e, st2), w')"
      "x = Inl uncaught"
  | (failed) st1 w1 st2 where
      "updateStep state pPath Verification Running NoExtra w = ((None, st1), w1)"
      "\<not> vr_valid (verifyProject pPath (installedComponents st1) w1)"
      "updateStep st1 pPath Verification Failed
         (ErrorExtra (VerificationMsg (vr_missing (verifyProject pPath (installedComponents st1) w1)))) w1
         = ((None, st2), w')"
      "x = Inl (Exit EXIT_FAILURE (Some st2))"
  | (completed_unsaved) st1 w1 e st2 where
      "updateStep state pPath Verification Running NoExtra w = ((None, st1), w1)"
      "vr_valid (verifyProject pPath (installedComponents st1) w1)"
      "updateStep st1 pPath Verification Done NoExtra w1 = ((Some e, st2), w')"
      "x = Inl uncaught"
  | (completed) st1 w1 st2 where
      "updateStep state pPath Verification Running NoExtra w = ((None, st1), w1)"
      "vr_valid (verifyProject pPath (installedComponents st1) w1)"
      "updateStep st1 pPath Verification Done NoExtra w1 = ((None, st2), w')"
      "x = Inr st2"
  using assms
  by (auto simp: step_verification_def Let_def split: prod.splits option.splits if_splits)

lemma step_verification_spec:
  assumes run: "step_verification pPath state w = (x, w')"
    and nd: "get_step Verification (steps state) \<noteq> Done"
  shows "emits (is_persist pPath) w w'"
    and "step_post pPath Verification state (x, w')"
proof -
  from nd run show "emits (is_persist pPath) w w'"
    by (cases rule: step_verification_cases) (blast intro: emits_trans updateStep_emits)+
  from nd run show "step_post pPath Verification state (x, w')"
  proof (cases rule: step_verification_cases)
    case (persist_failed e st1)
    then show ?thesis using nd by (simp add: step_post_InlI)
  next
    case (failed_unsaved st1 w1 e st2)
    then show ?thesis using nd by (simp add: step_post_InlI)
  next
    case (failed st1 w1 st2)
    then show ?thesis using nd by (auto intro: step_post_failed)
  next
    case (completed_unsaved st1 w1 e st2)
    then show ?thesis using nd by (simp add: step_post_InlI)
  next
    case (completed st1 w1 st2)
    then show ?thesis by (auto intro: step_post_done)
  qed
qed

section \<open>Facts about the pipeline\<close>

lemma run_step_skip:
  "get_step s (steps state) = Done \<Longrightarrow> run_step run pName targetDir pPath s state w = (Inr state, w)"
  by (cases s)
     (simp_all add: step_viteCreate_def step_npmInstall_def step_shadcnInit_def blocking_step_def
        step_componentInstall_def step_verification_def)

lemma chain_event_single:
  "get_step s tbl \<noteq> Done \<Longrightarrow> is_persist pPath e \<or> step_effect pPath s fresh e \<Longrightarrow>
   chain_event pPath tbl fresh [s] e"
  by (auto simp: chain_event_def)

lemma run_step_spec:
  assumes "run_step run pName targetDir pPath s state w = (x, w')"
  shows "emits (chain_event pPath (steps state) (freshCreation state) [s]) w w'"
    and "step_post pPath s state (x, w')"
proof -
  let ?C = "chain_event pPath (steps state) (freshCreation state) [s]"
  let ?Q = "\<lambda>e. is_persist pPath e \<or> step_effect pPath s (freshCreation state) e"
  show "emits ?C w w'"
  proof (cases "get_step s (steps state) = Done")
    case True
    with assms show ?thesis by (simp add: run_step_skip emits_refl)
  next
    case nd: False
    have "emits ?Q w w'"
    proof (cases s)
      case ViteCreate
      with assms nd show ?thesis using step_viteCreate_spec(1) by simp
    next
      case NpmInstall
      with assms nd show ?thesis
        using blocking_step_spec(1) [where s = NpmInstall and pPath = pPath and state = state
            and action = "npmInstall_cmd run pPath TIMEOUT_npmInstall"]
        by (simp add: step_npmInstall_def npmInstall_cmd_emits)
    next
      case ShadcnInit
      with assms nd show ?thesis
        using blocking_step_spec(1) [where s = ShadcnInit and pPath = pPath and state = state
            and action = "initShadcn run pPath TIMEOUT_shadcnInit"]
        by (simp add: step_shadcnInit_def initShadcn_emits)
    next
      case ComponentInstall
      with assms nd show ?thesis using step_componentInstall_spec(1) by simp
    next
      case Verification
      with assms nd have "emits (is_persist pPath) w w'"
        using step_verification_spec(1) by simp
      then show ?thesis by (rule emits_mono) simp
    qed
    then show ?thesis
      by (rule emits_mono) (use nd in \<open>auto intro: chain_event_single\<close>)
  qed
  show "step_post pPath s state (x, w')"
  proof (cases "get_step s (steps state) = Done")
    case True
    with assms show ?thesis
      by (auto simp: run_step_skip step_post_def list_all_iff)
  next
    case nd: False
    show ?thesis
    proof (cases s)
      case ViteCreate
      with assms nd show ?thesis using step_viteCreate_spec(2) by simp
    next
      case NpmInstall
      with assms nd show ?thesis
        using blocking_step_spec(2) [where s = NpmInstall and pPath = pPath and state = state
            and action = "npmInstall_cmd run pPath TIMEOUT_npmInstall"]
        by (simp add: step_npmInstall_def npmInstall_cmd_emits)
    next
      case ShadcnInit
      with assms nd show ?thesis
        using blocking_step_spec(2) [where s = ShadcnInit and pPath = pPath and state = state
            and action = "initShadcn run pPath TIMEOUT_shadcnInit"]
        by (simp add: step_shadcnInit_def initShadcn_emits)
    next
      case ComponentInstall
      with assms nd show ?thesis using step_componentInstall_spec(2) by simp
    next
      case Verification
      with assms nd show ?thesis using step_verification_spec(2) by simp
    qed
  qed
qed

lemma all_steps_complete: "k \<in> set all_steps"
  by (cases k) (simp_all add: all_steps_def)

lemma step_post_InrD:
  assumes "step_post pPath s state (Inr st', w')"
  shows "get_step s (steps st') = Done"
    and "k \<noteq> s \<Longrightarrow> get_step k (steps st') = get_step k (steps state)"
    and "freshCreation st' = freshCreation state"
    and "components st' = components state"
    and "get_step s (steps state) = Done \<or> fs w' (stateFilePath pPath) = Some (File (Doc st'))"
  using assms all_steps_complete [of k] by (auto simp: step_post_def list_all_iff)

lemma step_post_InlD:
  assumes "step_post pPath s state (Inl ex, w')"
  shows "exit_code ex = EXIT_FAILURE"
    and "summary ex = Some st \<Longrightarrow> get_step s (steps st) = Failed"
  using assms by (auto simp: step_post_def)

lemma chain_event_mono:
  assumes "chain_event pPath tbl fresh ss e"
    and "set ss \<subseteq> set ss'"
    and "\<And>s. s \<in> set ss \<Longrightarrow> get_step s tbl = get_step s tbl'"
  shows "chain_event pPath tbl' fresh ss' e"
  using assms by (auto simp: chain_event_def list_ex_iff)

text \<open>What holds after the blocks of a list of distinct steps.\<close>

lemma run_steps_spec:
  assumes "run_steps run pName targetDir pPath ss state w = (x, w')" and "distinct ss"
  shows "emits (chain_event pPath (steps state) (freshCreation state) ss) w w'
    \<and> (case x of
          Inr st' \<Rightarrow>
             (\<forall>s\<in>set ss. get_step s (steps st') = Done)
           \<and> (\<forall>k. k \<notin> set ss \<longrightarrow> get_step k (steps st') = get_step k (steps state))
           \<and> freshCreation st' = freshCreation state
           \<and> components st' = components state
           \<and> ((\<forall>s\<in>set ss. get_step s (steps state) = Done) \<and> st' = state \<and> w' = w
               \<or> fs w' (stateFilePath pPath) = Some (File (Doc st')))
        | Inl ex \<Rightarrow>
             exit_code ex = EXIT_FAILURE
           \<and> (\<forall>st. summary ex = Some st \<longrightarrow> (\<exists>s\<in>set ss. get_step s (steps st) = Failed)))"
  using assms
proof (induction ss arbitrary: state w)
  case Nil
  then show ?case by (auto simp: emits_refl)
next
  case (Cons s ss)
  let ?C = "chain_event pPath (steps state) (freshCreation state) (s # ss)"
  obtain y w1 where first: "run_step run pName targetDir pPath s state w = (y, w1)"
    by (cases "run_step run pName targetDir pPath s state w")
  note spec = run_step_spec [OF first]
  have e1: "emits ?C w w1"
    by (rule emits_mono [OF spec(1)]) (auto intro: chain_event_mono)
  show ?case
  proof (cases y)
    case (Inl ex)
    with first Cons.prems have x: "x = Inl ex" "w' = w1"
      by (simp_all add: and_then_def)
    from spec(2) Inl have "step_post pPath s state (Inl ex, w1)" by simp
    from step_post_InlD [OF this] x e1 show ?thesis by auto
  next
    case (Inr st1)
    note y = Inr
    with first Cons.prems have rest: "run_steps run pName targetDir pPath ss st1 w1 = (x, w')"
      by (simp add: and_then_def)
    from spec(2) Inr have post: "step_post pPath s state (Inr st1, w1)" by simp
    note p = step_post_InrD [OF post]
    from Cons.prems have d: "distinct ss" "s \<notin> set ss" by simp_all
    note ih = Cons.IH [OF rest d(1)]
    have keep: "get_step k (steps st1) = get_step k (steps state)" if "k \<in> set ss" for k
      using p(2) [of k] that d(2) by auto
    have "emits (chain_event pPath (steps st1) (freshCreation st1) ss) w1 w'"
      using ih by simp
    then have e2: "emits ?C w1 w'"
      by (rule emits_mono) (use keep p(3) in \<open>auto intro: chain_event_mono\<close>)
    have e: "emits ?C w w'" by (rule emits_trans [OF e1 e2])
    show ?thesis
    proof (cases x)
      case (Inl ex)
      with ih e show ?thesis by auto
    next
      case (Inr st')
      with ih have a: "\<forall>s\<in>set ss. get_step s (steps st') = Done"
        and b: "\<forall>k. k \<notin> set ss \<longrightarrow> get_step k (steps st') = get_step k (steps st1)"
        and c: "freshCreation st' = freshCreation st1" "components st' = components st1"
        and f: "(\<forall>s\<in>set ss. get_step s (steps st1) = Done) \<and> st' = st1 \<and> w' = w1
               \<or> fs w' (stateFilePath pPath) = Some (File (Doc st'))"
        by simp_all
      have 1: "\<forall>k\<in>set (s # ss). get_step k (steps st') = Done"
        using a b d(2) p(1) by auto
      have 2: "\<forall>k. k \<notin> set (s # ss) \<longrightarrow> get_step k (steps st') = get_step k (steps state)"
        using b p(2) by auto
      have 3: "(\<forall>k\<in>set (s # ss). get_step k (steps state) = Done) \<and> st' = state \<and> w' = w
               \<or> fs w' (stateFilePath pPath) = Some (File (Doc st'))"
      proof (cases "fs w' (stateFilePath pPath) = Some (File (Doc st'))")
        case True
        then show ?thesis by simp
      next
        case False
        with f have all: "\<forall>s\<in>set ss. get_step s (steps st1) = Done"
          and eq: "st' = st1" "w' = w1" by auto
        from False eq p(5) have sd: "get_step s (steps state) = Done" by auto
        from run_step_skip [OF sd, of run pName targetDir pPath w] first y
        have "st1 = state" "w1 = w" by simp_all
        with all sd eq show ?thesis by simp
      qed
      from e 1 2 3 c p(3,4) Inr show ?thesis by simp
    qed
  qed
qed


lemma and_then_assoc:
  "and_then (and_then r f) g = and_then r (\<lambda>st w. and_then (f st w) g)"
  by (cases r) (auto simp: and_then_def split: sum.splits)

lemma and_then_return: "and_then r (\<lambda>st w. (Inr st, w)) = r"
  by (cases r) (auto simp: and_then_def split: sum.splits)

lemma pipeline_run_steps:
  "pipeline run pName targetDir pPath state w =
    (case run_steps run pName targetDir pPath all_steps state w of
       (Inl ex, w') \<Rightarrow> (ex, w')
     | (Inr state', w') \<Rightarrow> finish pPath state' w')"
proof -
  have nil: "run_steps run pName targetDir pPath [] = (\<lambda>st w. (Inr st, w))"
    by (rule ext)+ simp
  have cons: "run_steps run pName targetDir pPath (s # ss)
      = (\<lambda>st w. and_then (run_step run pName targetDir pPath s st w) (run_steps run pName targetDir pPath ss))"
    for s ss
    by (rule ext)+ simp
  have "run_steps run pName targetDir pPath all_steps state w =
    and_then (and_then (and_then (and_then
              (step_viteCreate run pName targetDir pPath state w)
              (step_npmInstall run pPath))
              (step_shadcnInit run pPath))
              (step_componentInstall run pPath))
              (step_verification pPath)"
    unfolding all_steps_def cons nil and_then_assoc and_then_return
    by simp
  then show ?thesis by (simp add: pipeline_def)
qed

lemma finish_spec:
  assumes "finish pPath st w = (ex, w')"
  shows "emits (\<lambda>e. e = EvUnlink (stateFilePath pPath)) w w'"
    and "fs w (stateFilePath pPath) \<noteq> Some Dir \<Longrightarrow>
           ex = Exit EXIT_SUCCESS (Some st) \<and> fs w' (stateFilePath pPath) = None"
    and "ex = Exit EXIT_SUCCESS (Some st) \<or> ex = uncaught"
proof -
  let ?f = "stateFilePath pPath"
  show "emits (\<lambda>e. e = EvUnlink ?f) w w'"
  proof (cases "existsSync ?f w")
    case True
    then have "trace w' = trace w @ [EvUnlink ?f]"
      using assms
      by (auto simp: finish_def removeState_def unlinkSync_def emit_def Let_def
          split: option.splits node.splits prod.splits)
    then show ?thesis by (rule emitsI) simp
  next
    case False
    with assms have "w' = w" by (auto simp: finish_def removeState_def Let_def)
    then show ?thesis by (simp add: emits_refl)
  qed
  show "ex = Exit EXIT_SUCCESS (Some st) \<and> fs w' ?f = None" if "fs w ?f \<noteq> Some Dir"
    using assms that
    by (auto simp: finish_def removeState_def unlinkSync_def emit_def Let_def existsSync_def
        split: option.splits node.splits prod.splits if_splits)
  show "ex = Exit EXIT_SUCCESS (Some st) \<or> ex = uncaught"
    using assms by (auto simp: finish_def split: option.splits prod.splits)
qed

lemma exit_codes_differ: "EXIT_FAILURE \<noteq> EXIT_SUCCESS"
  by (simp add: EXIT_FAILURE_def EXIT_SUCCESS_def)

text \<open>
  The pipeline, for a state whose checkpoint is a file whenever all its steps are done
  already (as it is when the state was loaded from that file).
\<close>

lemma pipeline_spec:
  assumes run: "pipeline run pName targetDir pPath state w = (ex, w')"
    and ckpt: "(\<forall>k. get_step k (steps state) = Done) \<longrightarrow> fs w (stateFilePath pPath) \<noteq> Some Dir"
  shows "exit_code ex = EXIT_SUCCESS \<longleftrightarrow>
           (\<exists>st. summary ex = Some st \<and> (\<forall>k. get_step k (steps st) = Done))"
    and "exit_code ex = EXIT_SUCCESS \<or> exit_code ex = EXIT_FAILURE"
    and "exit_code ex = EXIT_SUCCESS \<Longrightarrow> fs w' (stateFilePath pPath) = None"
    and "exit_code ex \<noteq> EXIT_SUCCESS \<Longrightarrow>
           emits (chain_event pPath (steps state) (freshCreation state) all_steps) w w'"
    and "emits (\<lambda>e. chain_event pPath (steps state) (freshCreation state) all_steps e
                  \<or> e = EvUnlink (stateFilePath pPath)) w w'"
proof -
  let ?C = "chain_event pPath (steps state) (freshCreation state) all_steps"
  let ?f = "stateFilePath pPath"
  obtain x w1 where steps: "run_steps run pName targetDir pPath all_steps state w = (x, w1)"
    by (cases "run_steps run pName targetDir pPath all_steps state w")
  have d: "distinct all_steps" by (simp add: all_steps_def)
  note spec = run_steps_spec [OF steps d]
  from spec have e1: "emits ?C w w1" by simp
  have main: "(exit_code ex = EXIT_SUCCESS \<longleftrightarrow>
           (\<exists>st. summary ex = Some st \<and> (\<forall>k. get_step k (steps st) = Done)))
    \<and> (exit_code ex = EXIT_SUCCESS \<or> exit_code ex = EXIT_FAILURE)
    \<and> (exit_code ex = EXIT_SUCCESS \<longrightarrow> fs w' ?f = None)
    \<and> (exit_code ex \<noteq> EXIT_SUCCESS \<longrightarrow> emits ?C w w')
    \<and> emits (\<lambda>e. ?C e \<or> e = EvUnlink ?f) w w'"
  proof (cases x)
    case (Inl ex1)
    with run steps have eq: "ex = ex1" "w' = w1" by (simp_all add: pipeline_run_steps)
    from spec Inl have code: "exit_code ex1 = EXIT_FAILURE"
      and failed: "\<forall>st. summary ex1 = Some st \<longrightarrow> (\<exists>s\<in>set all_steps. get_step s (steps st) = Failed)"
      by simp_all
    have "\<not> (\<exists>st. summary ex1 = Some st \<and> (\<forall>k. get_step k (steps st) = Done))"
      using failed by fastforce
    moreover have "emits (\<lambda>e. ?C e \<or> e = EvUnlink ?f) w w1"
      by (rule emits_mono [OF e1]) simp
    ultimately show ?thesis using eq code e1 exit_codes_differ by simp
  next
    case (Inr st1)
    with run steps have fin: "finish pPath st1 w1 = (ex, w')" by (simp add: pipeline_run_steps)
    from spec Inr have alld: "\<forall>k. get_step k (steps st1) = Done"
      and disk: "(\<forall>s\<in>set all_steps. get_step s (steps state) = Done) \<and> st1 = state \<and> w1 = w
               \<or> fs w1 ?f = Some (File (Doc st1))"
      using all_steps_complete by auto
    from disk ckpt all_steps_complete have "fs w1 ?f \<noteq> Some Dir" by auto
    from finish_spec(2) [OF fin this] have ok: "ex = Exit EXIT_SUCCESS (Some st1)" "fs w' ?f = None"
      by simp_all
    have "emits (\<lambda>e. ?C e \<or> e = EvUnlink ?f) w w1"
      by (rule emits_mono [OF e1]) simp
    moreover have "emits (\<lambda>e. ?C e \<or> e = EvUnlink ?f) w1 w'"
      by (rule emits_mono [OF finish_spec(1) [OF fin]]) simp
    ultimately have "emits (\<lambda>e. ?C e \<or> e = EvUnlink ?f) w w'" by (rule emits_trans)
    with ok alld show ?thesis by simp
  qed
  from main show "exit_code ex = EXIT_SUCCESS \<longleftrightarrow>
           (\<exists>st. summary ex = Some st \<and> (\<forall>k. get_step k (steps st) = Done))" by blast
  from main show "exit_code ex = EXIT_SUCCESS \<or> exit_code ex = EXIT_FAILURE" by blast
  from main show "exit_code ex = EXIT_SUCCESS \<Longrightarrow> fs w' ?f = None" by blast
  from main show "exit_code ex \<noteq> EXIT_SUCCESS \<Longrightarrow> emits ?C w w'" by blast
  from main show "emits (\<lambda>e. ?C e \<or> e = EvUnlink ?f) w w'" by blast
qed

lemma existing_state_on_disk:
  assumes "existingState (validateInputs a w) = Some st"
  shows "fs w (stateFilePath (v_projectPath (validateInputs a w))) = Some (File (Doc st))"
proof -
  let ?p = "path_join (cli_targetDir a) (if cli_projectName a = [] then ''unnamed'' else cli_projectName a)"
  have p: "v_projectPath (validateInputs a w) = ?p"
    by (simp add: validateInputs_def Let_def split: prod.splits)
  have "snd (check_project_path ?p w) = Some st"
    using assms by (auto simp: validateInputs_def Let_def split: prod.splits if_splits)
  then have "fs w (stateFilePath ?p) = Some (File (Doc st))"
    by (auto simp: check_project_path_def Let_def stateFilePath_def readFileSync_def JSON_parse_def
        split: if_splits sum.splits option.splits node.splits content.splits)
  with p show ?thesis by simp
qed


section \<open>Steps that are done are skipped\<close>

lemma chain_event_spawn:
  "chain_event pPath tbl fresh ss e \<Longrightarrow> spawn_step e = Some s \<Longrightarrow> get_step s tbl \<noteq> Done"
  by (cases e) (auto simp: chain_event_def step_effect_def list_ex_iff)

lemma spawn_step_unlink: "spawn_step (EvUnlink p) = None"
  by simp

lemma emits_extends: "emits P w w' \<Longrightarrow> \<exists>evs. trace w' = trace w @ evs"
  using emitsD by blast

lemma saveState_first_event:
  "\<exists>evs. trace (snd (saveState pPath st w))
     = trace w @ EvWriteFile (tmpFilePath pPath) (Doc (st\<lparr>updatedAt := clock w\<rparr>)) # evs"
proof -
  let ?st = "st\<lparr>updatedAt := clock w\<rparr>"
  let ?wr = "writeFileSync (tmpFilePath pPath) (Doc ?st) w"
  let ?rn = "renameSync (tmpFilePath pPath) (stateFilePath pPath) (snd ?wr)"
  have "snd (saveState pPath st w) = snd ?wr \<or> snd (saveState pPath st w) = snd ?rn"
    by (auto simp: saveState_def Let_def tmpFilePath_def JSON_stringify_def split: prod.splits option.splits)
  then show ?thesis
    by (auto simp: writeFileSync_trace renameSync_trace)
qed

lemma blocking_step_first_event:
  assumes nd: "get_step s (steps state) \<noteq> Done"
    and act: "\<And>w1 a w2. action w1 = (a, w2) \<Longrightarrow> emits (\<lambda>e. spawn_step e = Some s) w1 w2"
    and s: "s = NpmInstall \<or> s = ShadcnInit"
    and run: "blocking_step s action pPath state w = (x, w')"
  shows "\<exists>evs. trace w' = trace w @ EvWriteFile (tmpFilePath pPath)
           (Doc (state\<lparr>steps := set_step s Running (steps state), updatedAt := clock w\<rparr>)) # evs"
proof -
  let ?Q = "\<lambda>e. is_persist pPath e \<or> step_effect pPath s (freshCreation state) e"
  let ?arg = "state\<lparr>steps := set_step s Running (steps state)\<rparr>"
  obtain y w1 where u: "updateStep state pPath s Running NoExtra w = (y, w1)"
    by (cases "updateStep state pPath s Running NoExtra w")
  then have w1: "w1 = snd (saveState pPath ?arg w)"
    by (simp add: updateStep_def)
  from saveState_first_event [of pPath ?arg w] w1 obtain evs where
    t1: "trace w1 = trace w @ EvWriteFile (tmpFilePath pPath) (Doc (?arg\<lparr>updatedAt := clock w\<rparr>)) # evs"
    by auto
  have actQ: "emits ?Q wa wb" if "action wa = (a, wb)" for wa a wb
    by (rule emits_mono [OF act [OF that]]) (simp add: step_effect_def)
  have rmQ: "emits ?Q w3 (if b then cleanup pPath w3 else w3)" if "b \<longrightarrow> freshCreation state" for w3 b
  proof (cases b)
    case True
    with that s show ?thesis
      using emits_mono [OF cleanup_emits [of pPath w3], of ?Q] by (auto simp: step_effect_def)
  next
    case False
    then show ?thesis by (simp add: emits_refl)
  qed
  have "emits ?Q w1 w'"
    using nd run
  proof (cases rule: blocking_step_cases)
    case (persist_failed e st1)
    with u show ?thesis by (simp add: emits_refl)
  next
    case (interrupt st1 wa sg w2)
    with u show ?thesis by (auto intro: emits_trans actQ interrupted_weaken)
  next
    case (failed_unsaved st1 wa m w2 e st2)
    with u show ?thesis by (auto intro: emits_trans persist_weaken actQ)
  next
    case (failed st1 wa m w2 st2 w3)
    have fr: "freshCreation st2 = freshCreation state"
      using updateStep_fields(2) [OF failed(1)] updateStep_fields(2) [OF failed(3)] by simp
    have "emits ?Q w1 w3"
      using failed u by (auto intro: emits_trans persist_weaken actQ)
    moreover have "emits ?Q w3 w'"
      using failed(5) rmQ [of "freshCreation st2" w3] fr by simp
    ultimately show ?thesis by (rule emits_trans)
  next
    case (completed_unsaved st1 wa w2 e st2)
    with u show ?thesis by (auto intro: emits_trans persist_weaken actQ)
  next
    case (completed st1 wa w2 st2)
    with u show ?thesis by (auto intro: emits_trans persist_weaken actQ)
  qed
  from emits_extends [OF this] t1 show ?thesis by auto
qed

text \<open>The run from a given state on, restricted to the blocks of some steps.\<close>

lemma run_steps_extends:
  assumes "run_steps run pName targetDir pPath ss state w = (x, w')" "distinct ss"
  shows "\<exists>evs. trace w' = trace w @ evs"
  using run_steps_spec [OF assms] emits_extends by blast

lemma finish_extends:
  "finish pPath st w = (ex, w') \<Longrightarrow> \<exists>evs. trace w' = trace w @ evs"
  using finish_spec(1) emits_extends by blast


text \<open>
  C5. The block of a step whose status is done returns the state and the world as they are:
  nothing is run and nothing is persisted. In a run resumed from a checkpoint, no command of
  a step that the checkpoint records as done is spawned. In particular, when the checkpoint
  records the bootstrap step as done and the dependency-install step as not done, the
  bootstrap command is not spawned again and the first thing the run does is to persist the
  dependency-install step as running.
\<close>

theorem done_steps_skipped:
  assumes "existingState (validateInputs a w) = Some st"
    and "valid (validateInputs a w)"
    and "main run a w = (ex, w')"
  shows "(\<forall>s state' w1. get_step s (steps state') = Done \<longrightarrow>
            run_step run pName targetDir pPath s state' w1 = (Inr state', w1))
    \<and> (\<forall>s. get_step s (steps st) = Done \<longrightarrow>
            list_all (\<lambda>e. spawn_step e \<noteq> Some s) (new_events w w'))
    \<and> (get_step ViteCreate (steps st) = Done \<and> get_step NpmInstall (steps st) \<noteq> Done \<longrightarrow>
          list_all (\<lambda>e. spawn_step e \<noteq> Some ViteCreate) (new_events w w')
        \<and> (\<exists>evs. new_events w w' =
              EvWriteFile (tmpFilePath (v_projectPath (validateInputs a w)))
                (Doc (st\<lparr>freshCreation := False,
                          steps := set_step NpmInstall Running (steps st),
                          updatedAt := clock w\<rparr>)) # evs))"
proof (intro conjI allI impI)
  fix s :: step and state' :: scaffold_state and w1 :: world
  assume "get_step s (steps state') = Done"
  then show "run_step run pName targetDir pPath s state' w1 = (Inr state', w1)"
    by (rule run_step_skip)
next
  let ?v = "validateInputs a w"
  let ?pp = "v_projectPath ?v"
  let ?st0 = "st\<lparr>freshCreation := False\<rparr>"
  have st0: "initial_state a ?v w = ?st0"
    using assms(1) by (simp add: initial_state_def)
  from assms(2,3) st0
  have run: "pipeline run (cli_projectName a) (cli_targetDir a) ?pp ?st0 w = (ex, w')"
    by (simp add: main_def Let_def)
  have ckpt: "(\<forall>k. get_step k (steps ?st0) = Done) \<longrightarrow> fs w (stateFilePath ?pp) \<noteq> Some Dir"
    using existing_state_on_disk [OF assms(1)] by simp
  note spec = pipeline_spec [OF run ckpt]
  have no_spawn: "list_all (\<lambda>e. spawn_step e \<noteq> Some s) (new_events w w')"
    if "get_step s (steps st) = Done" for s
  proof -
    from emitsD [OF spec(5)]
    have "list_all (\<lambda>e. chain_event ?pp (steps ?st0) (freshCreation ?st0) all_steps e
                  \<or> e = EvUnlink (stateFilePath ?pp)) (new_events w w')"
      by simp
    moreover have "spawn_step e \<noteq> Some s"
      if "chain_event ?pp (steps ?st0) (freshCreation ?st0) all_steps e
                  \<or> e = EvUnlink (stateFilePath ?pp)" for e
      using that
    proof
      assume "chain_event ?pp (steps ?st0) (freshCreation ?st0) all_steps e"
      with \<open>get_step s (steps st) = Done\<close> show ?thesis
        using chain_event_spawn [of ?pp "steps ?st0" "freshCreation ?st0" all_steps e s] by auto
    next
      assume "e = EvUnlink (stateFilePath ?pp)"
      then show ?thesis by simp
    qed
    ultimately show ?thesis
      by (simp add: list_all_iff)
  qed
  {
    fix s :: step assume "get_step s (steps st) = Done"
    then show "list_all (\<lambda>e. spawn_step e \<noteq> Some s) (new_events w w')"
      by (rule no_spawn)
  }
  assume res: "get_step ViteCreate (steps st) = Done \<and> get_step NpmInstall (steps st) \<noteq> Done"
  then show "list_all (\<lambda>e. spawn_step e \<noteq> Some ViteCreate) (new_events w w')"
    using no_spawn by blast
  let ?first = "EvWriteFile (tmpFilePath ?pp)
                (Doc (st\<lparr>freshCreation := False,
                          steps := set_step NpmInstall Running (steps st),
                          updatedAt := clock w\<rparr>))"
  let ?rs = "run_steps run (cli_projectName a) (cli_targetDir a) ?pp"
  obtain y wA where npm: "step_npmInstall run ?pp ?st0 w = (y, wA)"
    by (cases "step_npmInstall run ?pp ?st0 w")
  have "\<exists>evs. trace wA = trace w @ EvWriteFile (tmpFilePath ?pp)
           (Doc (?st0\<lparr>steps := set_step NpmInstall Running (steps ?st0), updatedAt := clock w\<rparr>)) # evs"
    using res npm
    by (intro blocking_step_first_event [where s = NpmInstall and x = y
          and action = "npmInstall_cmd run ?pp TIMEOUT_npmInstall"])
       (auto simp: step_npmInstall_def npmInstall_cmd_emits)
  then obtain evs1 where tA: "trace wA = trace w @ ?first # evs1"
    by auto
  have skip: "?rs all_steps ?st0 w = and_then (y, wA) (?rs [ShadcnInit, ComponentInstall, Verification])"
    using res npm
    by (simp add: all_steps_def step_viteCreate_def and_then_def)
  have "\<exists>evs. trace w' = trace wA @ evs"
  proof (cases y)
    case (Inl ex1)
    with skip run have "w' = wA" by (simp add: pipeline_run_steps and_then_def)
    then show ?thesis by simp
  next
    case (Inr st1)
    obtain x w2 where rest: "?rs [ShadcnInit, ComponentInstall, Verification] st1 wA = (x, w2)"
      by (cases "?rs [ShadcnInit, ComponentInstall, Verification] st1 wA")
    from run_steps_extends [OF rest] obtain evs2 where t2: "trace w2 = trace wA @ evs2"
      by auto
    show ?thesis
    proof (cases x)
      case (Inl ex2)
      with skip run Inr rest have "w' = w2" by (simp add: pipeline_run_steps and_then_def)
      with t2 show ?thesis by simp
    next
      case x: (Inr st2)
      with skip run Inr rest have "finish ?pp st2 w2 = (ex, w')"
        by (simp add: pipeline_run_steps and_then_def)
      from finish_extends [OF this] t2 show ?thesis by auto
    qed
  qed
  with tA obtain evs where "trace w' = trace w @ ?first # evs" by auto
  then have "new_events w w' = ?first # evs" by (rule new_events_append)
  then show "\<exists>evs. new_events w w' = ?first # evs" by blast
qed


text \<open>
  Resuming at the project whose checkpoint has the bootstrap step done and the others
  pending: the run starts by persisting the dependency-install step as running and then
  spawns the dependency manager; the bootstrap command is not among its commands.
\<close>

theorem done_steps_skipped_witness:
  "existingState (validateInputs args_minimal w_bootstrapped) = Some st_bootstrapped
   \<and> valid (validateInputs args_minimal w_bootstrapped)
   \<and> steps st_bootstrapped = \<lparr>viteCreate = Done, npmInstall = Pending, shadcnInit = Pending,
                               componentInstall = Pending, verification = Pending\<rparr>
   \<and> list_all (\<lambda>e. spawn_step e \<noteq> Some ViteCreate)
        (new_events w_bootstrapped (snd (main (sim all_succeed) args_minimal w_bootstrapped)))
   \<and> take 3 (new_events w_bootstrapped (snd (main (sim all_succeed) args_minimal w_bootstrapped)))
       = [EvWriteFile (tmpFilePath ''/w/app'')
            (Doc (st_bootstrapped\<lparr>freshCreation := False,
                    steps := set_step NpmInstall Running (steps st_bootstrapped),
                    updatedAt := 7000\<rparr>)),
          EvRename (tmpFilePath ''/w/app'') (stateFilePath ''/w/app''),
          EvSpawn ''npm'' [''install''] ''/w/app'' 120000]"
proof -
  let ?r = "main (sim all_succeed) args_minimal w_bootstrapped"
  have e: "existingState (validateInputs args_minimal w_bootstrapped) = Some st_bootstrapped"
    by code_simp
  have v: "valid (validateInputs args_minimal w_bootstrapped)"
    by code_simp
  have t: "steps st_bootstrapped = \<lparr>viteCreate = Done, npmInstall = Pending, shadcnInit = Pending,
                               componentInstall = Pending, verification = Pending\<rparr>"
    by code_simp
  have f: "take 3 (new_events w_bootstrapped (snd ?r))
       = [EvWriteFile (tmpFilePath ''/w/app'')
            (Doc (st_bootstrapped\<lparr>freshCreation := False,
                    steps := set_step NpmInstall Running (steps st_bootstrapped),
                    updatedAt := 7000\<rparr>)),
          EvRename (tmpFilePath ''/w/app'') (stateFilePath ''/w/app''),
          EvSpawn ''npm'' [''install''] ''/w/app'' 120000]"
    by code_simp
  have run: "?r = (fst ?r, snd ?r)" by simp
  from t have d: "get_step ViteCreate (steps st_bootstrapped) = Done
      \<and> get_step NpmInstall (steps st_bootstrapped) \<noteq> Done"
    by simp
  from done_steps_skipped [OF e v run] d
  have "list_all (\<lambda>e. spawn_step e \<noteq> Some ViteCreate) (new_events w_bootstrapped (snd ?r))"
    by blast
  with e v t f show ?thesis by blast
qed

section \<open>The component step always ends as done\<close>




section \<open>Interruption\<close>

lemma get_step_relabel_running:
  "get_step k (relabel_running t) = (if get_step k t = Running then Failed else get_step k t)"
  by (cases k) (simp_all add: relabel_running_def all_steps_def)

lemma project_path_not_checkpoint:
  "pPath \<noteq> stateFilePath pPath" "pPath \<noteq> tmpFilePath pPath"
  by (auto simp: stateFilePath_def tmpFilePath_def path_join_def STATE_FILENAME_def)

text \<open>
  C9. When a termination signal arrives mid-run, the handler relabels every step that is
  running as failed, attaches the interruption as the error, attempts to persist the state
  (the temporary file is written first) and exits with the failure code whether or not the
  persist threw (the checkpoint then holds the new state or is as it was). It performs no cleanup, also when \<open>freshCreation\<close> is true: it issues
  nothing but the events of the persist, and the project directory and every path other
  than the checkpoint and its temporary file are as they were.
\<close>

theorem interrupt_handler:
  assumes "handler sg (Some (state, pPath)) w = ((cur', ex), w')"
  shows "(\<exists>st'. cur' = Some st'
           \<and> (\<forall>k. get_step k (steps st') =
                  (if get_step k (steps state) = Running then Failed else get_step k (steps state)))
           \<and> error st' = Some (InterruptedMsg sg)
           \<and> freshCreation st' = freshCreation state
           \<and> (\<exists>evs. new_events w w' = EvWriteFile (tmpFilePath pPath) (Doc st') # evs)
           \<and> (fs w' (stateFilePath pPath) = Some (File (Doc st'))
                \<or> fs w' (stateFilePath pPath) = fs w (stateFilePath pPath)))
    \<and> ex = Exit EXIT_FAILURE None
    \<and> exit_code ex \<noteq> 0
    \<and> list_all (is_persist pPath) (new_events w w')
    \<and> EvRm pPath \<notin> set (new_events w w')
    \<and> fs w' pPath = fs w pPath
    \<and> (\<forall>q. q \<noteq> tmpFilePath pPath \<and> q \<noteq> stateFilePath pPath \<longrightarrow> fs w' q = fs w q)"
proof -
  let ?st2 = "state\<lparr>steps := relabel_running (steps state), error := Some (InterruptedMsg sg)\<rparr>"
  let ?sv = "saveState pPath ?st2 w"
  let ?st' = "?st2\<lparr>updatedAt := clock w\<rparr>"
  from assms have cur: "cur' = Some (snd (fst ?sv))" and ex: "ex = Exit EXIT_FAILURE None"
    and w': "w' = snd ?sv"
    by (auto simp: handler_def Let_def split: prod.splits)
  have st': "snd (fst ?sv) = ?st'" by (rule saveState_state)
  have steps: "\<forall>k. get_step k (steps ?st') =
                  (if get_step k (steps state) = Running then Failed else get_step k (steps state))"
    by (simp add: get_step_relabel_running)
  from saveState_first_event [of pPath ?st2 w] w'
  have first: "\<exists>evs. new_events w w' = EvWriteFile (tmpFilePath pPath) (Doc ?st') # evs"
    by (auto simp: new_events_def)
  have em: "emits (is_persist pPath) w w'"
    using w' by (simp add: saveState_emits)
  then have pers: "list_all (is_persist pPath) (new_events w w')"
    by (simp add: emits_def)
  then have norm: "EvRm pPath \<notin> set (new_events w w')"
    by (auto simp: list_all_iff)
  have frame: "\<forall>q. q \<noteq> tmpFilePath pPath \<and> q \<noteq> stateFilePath pPath \<longrightarrow> fs w' q = fs w q"
    using w' by (simp add: saveState_frame)
  then have dir: "fs w' pPath = fs w pPath"
    using project_path_not_checkpoint [of pPath] by metis
  have disk: "fs w' (stateFilePath pPath) =
               (if fst (fst ?sv) = None then Some (File (Doc ?st')) else fs w (stateFilePath pPath))"
  proof (cases "fst (fst ?sv)")
    case None
    from saveState_ok [OF this] w' None show ?thesis by simp
  next
    case (Some e)
    let ?wr = "writeFileSync (tmpFilePath pPath) (Doc ?st') w"
    let ?rn = "renameSync (tmpFilePath pPath) (stateFilePath pPath) (snd ?wr)"
    have neq: "stateFilePath pPath \<noteq> tmpFilePath pPath" by (simp add: tmpFilePath_def)
    have "(w' = snd ?wr) \<or> (w' = snd ?rn \<and> fst ?rn \<noteq> None)"
      using w' Some
      by (auto simp: saveState_def Let_def tmpFilePath_def JSON_stringify_def
          split: prod.splits option.splits)
    then have "fs w' (stateFilePath pPath) = fs w (stateFilePath pPath)"
      using writeFileSync_other [OF neq, of "Doc ?st'" w]
      by (auto simp: renameSync_fs)
    with Some show ?thesis by simp
  qed
  have code: "exit_code ex \<noteq> 0"
    using ex by (simp add: EXIT_FAILURE_def)
  have "cur' = Some ?st'
           \<and> (\<forall>k. get_step k (steps ?st') =
                  (if get_step k (steps state) = Running then Failed else get_step k (steps state)))
           \<and> error ?st' = Some (InterruptedMsg sg)
           \<and> freshCreation ?st' = freshCreation state
           \<and> (\<exists>evs. new_events w w' = EvWriteFile (tmpFilePath pPath) (Doc ?st') # evs)
           \<and> (fs w' (stateFilePath pPath) = Some (File (Doc ?st'))
                \<or> fs w' (stateFilePath pPath) = fs w (stateFilePath pPath))"
    using cur st' steps first disk by simp
  then have "\<exists>st'. cur' = Some st'
           \<and> (\<forall>k. get_step k (steps st') =
                  (if get_step k (steps state) = Running then Failed else get_step k (steps state)))
           \<and> error st' = Some (InterruptedMsg sg)
           \<and> freshCreation st' = freshCreation state
           \<and> (\<exists>evs. new_events w w' = EvWriteFile (tmpFilePath pPath) (Doc st') # evs)
           \<and> (fs w' (stateFilePath pPath) = Some (File (Doc st'))
                \<or> fs w' (stateFilePath pPath) = fs w (stateFilePath pPath))"
    by (rule exI)
  with ex code pers norm dir frame show ?thesis by blast
qed


text \<open>
  A fresh creation interrupted while the dependency manager runs: exit code 1, the project
  directory is still there and the checkpoint records the step as failed by interruption.
  Where the project directory does not exist the persist fails and the handler exits in the
  same way.
\<close>

theorem interrupt_handler_witness:
  "exit_code (fst (main (sim npm_interrupted) args_minimal w_parent)) = 1
   \<and> fs (snd (main (sim npm_interrupted) args_minimal w_parent)) ''/w/app'' = Some Dir
   \<and> (case fs (snd (main (sim npm_interrupted) args_minimal w_parent)) (stateFilePath ''/w/app'') of
         Some (File (Doc s)) \<Rightarrow>
           npmInstall (steps s) = Failed \<and> error s = Some (InterruptedMsg ''SIGINT'') \<and> freshCreation s
       | other \<Rightarrow> False)
   \<and> fst (fst (saveState ''/w/app''
         (st_fresh\<lparr>steps := relabel_running (set_step NpmInstall Running (steps st_fresh)),
                   error := Some (InterruptedMsg ''SIGTERM'')\<rparr>) w_parent))
       = Some (ENOENT (tmpFilePath ''/w/app''))
   \<and> snd (fst (handler ''SIGTERM''
         (Some (st_fresh\<lparr>steps := set_step NpmInstall Running (steps st_fresh)\<rparr>, ''/w/app'')) w_parent))
       = Exit EXIT_FAILURE None
   \<and> EvRm ''/w/app'' \<notin> set (new_events w_parent (snd (handler ''SIGTERM''
         (Some (st_fresh\<lparr>steps := set_step NpmInstall Running (steps st_fresh)\<rparr>, ''/w/app'')) w_parent)))"
proof -
  let ?r = "main (sim npm_interrupted) args_minimal w_parent"
  let ?st = "st_fresh\<lparr>steps := set_step NpmInstall Running (steps st_fresh)\<rparr>"
  let ?h = "handler ''SIGTERM'' (Some (?st, ''/w/app'')) w_parent"
  have a: "exit_code (fst ?r) = 1" by code_simp
  have b: "fs (snd ?r) ''/w/app'' = Some Dir" by code_simp
  have c: "case fs (snd ?r) (stateFilePath ''/w/app'') of
         Some (File (Doc s)) \<Rightarrow>
           npmInstall (steps s) = Failed \<and> error s = Some (InterruptedMsg ''SIGINT'') \<and> freshCreation s
       | other \<Rightarrow> False"
    by code_simp
  have d: "fst (fst (saveState ''/w/app''
         (st_fresh\<lparr>steps := relabel_running (set_step NpmInstall Running (steps st_fresh)),
                   error := Some (InterruptedMsg ''SIGTERM'')\<rparr>) w_parent))
       = Some (ENOENT (tmpFilePath ''/w/app''))"
    by code_simp
  have run: "?h = ((fst (fst ?h), snd (fst ?h)), snd ?h)" by simp
  from interrupt_handler [OF run]
  have e: "snd (fst ?h) = Exit EXIT_FAILURE None"
    and f: "EvRm ''/w/app'' \<notin> set (new_events w_parent (snd ?h))"
    by blast+
  from a b c d e f show ?thesis by blast
qed

section \<open>The protocol of a step\<close>


























section \<open>Exit code and removal of the checkpoint\<close>


lemma blocking_step_failed_exit:
  assumes nd: "get_step s (steps state) \<noteq> Done"
    and run: "blocking_step s action pPath state w = (Inl (Exit c (Some st)), w')"
  shows "get_step s (steps st) = Failed"
    and "k \<noteq> s \<Longrightarrow> get_step k (steps st) = get_step k (steps state)"
    and "freshCreation st = freshCreation state"
    and "\<not> freshCreation state \<Longrightarrow> fs w' (stateFilePath pPath) = Some (File (Doc st))"
proof -
  have "get_step s (steps st) = Failed
      \<and> (k \<noteq> s \<longrightarrow> get_step k (steps st) = get_step k (steps state))
      \<and> freshCreation st = freshCreation state
      \<and> (\<not> freshCreation state \<longrightarrow> fs w' (stateFilePath pPath) = Some (File (Doc st)))"
    using nd run
  proof (cases rule: blocking_step_cases)
    case (persist_failed e st1)
    then show ?thesis by (simp add: uncaught_def)
  next
    case (interrupt st1 w1 sg w2)
    from interrupted_exit [OF interrupt(3)] show ?thesis by simp
  next
    case (failed_unsaved st1 w1 m w2 e st2)
    then show ?thesis by (simp add: uncaught_def)
  next
    case (failed st1 w1 m w2 st2 w3)
    from failed(4) have st: "st = st2" by simp
    note f1 = updateStep_fields [OF failed(1)]
    note f2 = updateStep_fields [OF failed(3)]
    from updateStep_ok [OF failed(3)] have disk: "fs w3 (stateFilePath pPath) = Some (File (Doc st2))"
      by simp
    from f1(1) [of k] f2(1) [of k] f2(1) [of s] f1(2) f2(2) disk failed(5) st
    show ?thesis by simp
  next
    case (completed_unsaved st1 w1 w2 e st2)
    then show ?thesis by (simp add: uncaught_def)
  next
    case (completed st1 w1 w2 st2)
    then show ?thesis by simp
  qed
  then show "get_step s (steps st) = Failed"
    and "k \<noteq> s \<Longrightarrow> get_step k (steps st) = get_step k (steps state)"
    and "freshCreation st = freshCreation state"
    and "\<not> freshCreation state \<Longrightarrow> fs w' (stateFilePath pPath) = Some (File (Doc st))"
    by simp_all
qed

lemma step_verification_failed_exit:
  assumes nd: "get_step Verification (steps state) \<noteq> Done"
    and run: "step_verification pPath state w = (Inl (Exit c (Some st)), w')"
  shows "get_step Verification (steps st) = Failed"
    and "k \<noteq> Verification \<Longrightarrow> get_step k (steps st) = get_step k (steps state)"
    and "freshCreation st = freshCreation state"
    and "fs w' (stateFilePath pPath) = Some (File (Doc st))"
proof -
  have "get_step Verification (steps st) = Failed
      \<and> (k \<noteq> Verification \<longrightarrow> get_step k (steps st) = get_step k (steps state))
      \<and> freshCreation st = freshCreation state
      \<and> fs w' (stateFilePath pPath) = Some (File (Doc st))"
    using nd run
  proof (cases rule: step_verification_cases)
    case (persist_failed e st1)
    then show ?thesis by (simp add: uncaught_def)
  next
    case (failed_unsaved st1 w1 e st2)
    then show ?thesis by (simp add: uncaught_def)
  next
    case (failed st1 w1 st2)
    from failed(4) have st: "st = st2" by simp
    note f1 = updateStep_fields [OF failed(1)]
    note f2 = updateStep_fields [OF failed(3)]
    from updateStep_ok [OF failed(3)] have disk: "fs w' (stateFilePath pPath) = Some (File (Doc st2))"
      by simp
    from f1(1) [of k] f2(1) [of k] f2(1) [of Verification] f1(2) f2(2) disk st
    show ?thesis by simp
  next
    case (completed_unsaved st1 w1 e st2)
    then show ?thesis by (simp add: uncaught_def)
  next
    case (completed st1 w1 st2)
    then show ?thesis by simp
  qed
  then show "get_step Verification (steps st) = Failed"
    and "k \<noteq> Verification \<Longrightarrow> get_step k (steps st) = get_step k (steps state)"
    and "freshCreation st = freshCreation state"
    and "fs w' (stateFilePath pPath) = Some (File (Doc st))"
    by simp_all
qed

lemma step_viteCreate_failed_exit:
  assumes nd: "get_step ViteCreate (steps state) \<noteq> Done"
    and run: "step_viteCreate run pName targetDir pPath state w = (Inl (Exit c (Some st)), w')"
  shows "get_step ViteCreate (steps st) = Failed"
    and "k \<noteq> ViteCreate \<Longrightarrow> get_step k (steps st) = get_step k (steps state)"
    and "freshCreation st = freshCreation state"
proof -
  have "get_step ViteCreate (steps st) = Failed
      \<and> (k \<noteq> ViteCreate \<longrightarrow> get_step k (steps st) = get_step k (steps state))
      \<and> freshCreation st = freshCreation state"
    using nd run
  proof (cases rule: step_viteCreate_cases)
    case (interrupt sg w1)
    from interrupted_exit [OF interrupt(2)] show ?thesis by simp
  next
    case (failed m w1)
    from failed(3) have "st = state\<lparr>steps := set_step ViteCreate Failed (steps state), error := Some m\<rparr>"
      by simp
    then have "steps st = set_step ViteCreate Failed (steps state)"
      and "freshCreation st = freshCreation state"
      by simp_all
    then show ?thesis by (simp only: get_set_step) simp
  next
    case (completed_unsaved w1 e st1)
    then show ?thesis by (simp add: uncaught_def)
  next
    case (completed w1 st1)
    then show ?thesis by simp
  qed
  then show "get_step ViteCreate (steps st) = Failed"
    and "k \<noteq> ViteCreate \<Longrightarrow> get_step k (steps st) = get_step k (steps state)"
    and "freshCreation st = freshCreation state"
    by simp_all
qed

lemma step_componentInstall_no_summary:
  assumes nd: "get_step ComponentInstall (steps state) \<noteq> Done"
    and run: "step_componentInstall run pPath state w = (Inl (Exit c (Some st)), w')"
  shows False
  using nd run
proof (cases rule: step_componentInstall_cases)
  case (persist_failed e st1)
  then show ?thesis by (simp add: uncaught_def)
next
  case (interrupt st1 w1 sg w2)
  from interrupted_exit [OF interrupt(3)] show ?thesis by simp
next
  case (completed_unsaved st1 w1 r w2 e st2)
  then show ?thesis by (simp add: uncaught_def)
next
  case (completed st1 w1 r w2 st2)
  then show ?thesis by simp
qed

text \<open>
  The block of a step that ends the process with a summary: the summary shows the step as
  failed and the other steps as they were; the step is not the component step; and unless
  the cleanup runs (the bootstrap step; the dependency-install and tool-init steps of a
  fresh creation), the checkpoint holds the state of the summary.
\<close>

lemma run_step_failed_exit:
  assumes run: "run_step run pName targetDir pPath s state w = (Inl (Exit c (Some st)), w')"
  shows "get_step s (steps state) \<noteq> Done"
    and "s \<noteq> ComponentInstall"
    and "get_step s (steps st) = Failed"
    and "k \<noteq> s \<Longrightarrow> get_step k (steps st) = get_step k (steps state)"
    and "freshCreation st = freshCreation state"
    and "s \<noteq> ViteCreate \<Longrightarrow> \<not> freshCreation state \<or> s = Verification \<Longrightarrow>
           fs w' (stateFilePath pPath) = Some (File (Doc st))"
proof -
  show nd: "get_step s (steps state) \<noteq> Done"
  proof
    assume "get_step s (steps state) = Done"
    from run_step_skip [OF this] run show False by simp
  qed
  have "s \<noteq> ComponentInstall
      \<and> get_step s (steps st) = Failed
      \<and> (k \<noteq> s \<longrightarrow> get_step k (steps st) = get_step k (steps state))
      \<and> freshCreation st = freshCreation state
      \<and> (s \<noteq> ViteCreate \<longrightarrow> \<not> freshCreation state \<or> s = Verification \<longrightarrow>
           fs w' (stateFilePath pPath) = Some (File (Doc st)))"
  proof (cases s)
    case ViteCreate
    with nd run have r: "step_viteCreate run pName targetDir pPath state w = (Inl (Exit c (Some st)), w')"
      and n: "get_step ViteCreate (steps state) \<noteq> Done" by simp_all
    note v = step_viteCreate_failed_exit [OF n r]
    from v(1) v(2) [of k] v(3) ViteCreate show ?thesis by simp
  next
    case NpmInstall
    with nd run have r: "blocking_step NpmInstall (npmInstall_cmd run pPath TIMEOUT_npmInstall) pPath state w
        = (Inl (Exit c (Some st)), w')"
      and n: "get_step NpmInstall (steps state) \<noteq> Done" by (simp_all add: step_npmInstall_def)
    note b = blocking_step_failed_exit [OF n r]
    from b(1) b(2) [of k] b(3) b(4) NpmInstall show ?thesis by simp
  next
    case ShadcnInit
    with nd run have r: "blocking_step ShadcnInit (initShadcn run pPath TIMEOUT_shadcnInit) pPath state w
        = (Inl (Exit c (Some st)), w')"
      and n: "get_step ShadcnInit (steps state) \<noteq> Done" by (simp_all add: step_shadcnInit_def)
    note b = blocking_step_failed_exit [OF n r]
    from b(1) b(2) [of k] b(3) b(4) ShadcnInit show ?thesis by simp
  next
    case ComponentInstall
    with nd run have r: "step_componentInstall run pPath state w = (Inl (Exit c (Some st)), w')"
      and n: "get_step ComponentInstall (steps state) \<noteq> Done" by simp_all
    from step_componentInstall_no_summary [OF n r] show ?thesis ..
  next
    case Verification
    with nd run have r: "step_verification pPath state w = (Inl (Exit c (Some st)), w')"
      and n: "get_step Verification (steps state) \<noteq> Done" by simp_all
    note v = step_verification_failed_exit [OF n r]
    from v(1) v(2) [of k] v(3) v(4) Verification show ?thesis by simp
  qed
  then show "s \<noteq> ComponentInstall"
    and "get_step s (steps st) = Failed"
    and "k \<noteq> s \<Longrightarrow> get_step k (steps st) = get_step k (steps state)"
    and "freshCreation st = freshCreation state"
    and "s \<noteq> ViteCreate \<Longrightarrow> \<not> freshCreation state \<or> s = Verification \<Longrightarrow>
           fs w' (stateFilePath pPath) = Some (File (Doc st))"
    by simp_all
qed

text \<open>Where the project directory is removed.\<close>

lemma persist_events_no_rm: "EvRm p \<notin> set (persist_events pPath st)"
  by (simp add: persist_events_def)






text \<open>The blocks of a list of steps: where they stop, and what they leave.\<close>

lemma run_steps_exit:
  assumes "run_steps run pName targetDir pPath ss state w = (Inl ex, w')"
  shows "\<exists>pre s post st1 w1. ss = pre @ s # post
      \<and> run_steps run pName targetDir pPath pre state w = (Inr st1, w1)
      \<and> run_step run pName targetDir pPath s st1 w1 = (Inl ex, w')"
  using assms
proof (induction ss arbitrary: state w)
  case Nil
  then show ?case by simp
next
  case (Cons s ss)
  obtain y w1 where first: "run_step run pName targetDir pPath s state w = (y, w1)"
    by (cases "run_step run pName targetDir pPath s state w")
  show ?case
  proof (cases y)
    case (Inl ex1)
    with first Cons.prems have "ex1 = ex" "w1 = w'" by (simp_all add: and_then_def)
    with first Inl have "s # ss = [] @ s # ss
        \<and> run_steps run pName targetDir pPath [] state w = (Inr state, w)
        \<and> run_step run pName targetDir pPath s state w = (Inl ex, w')"
      by simp
    then show ?thesis by blast
  next
    case (Inr st1)
    with first Cons.prems have rest: "run_steps run pName targetDir pPath ss st1 w1 = (Inl ex, w')"
      by (simp add: and_then_def)
    from Cons.IH [OF rest] obtain pre t post st2 w2 where
      p: "ss = pre @ t # post"
        "run_steps run pName targetDir pPath pre st1 w1 = (Inr st2, w2)"
        "run_step run pName targetDir pPath t st2 w2 = (Inl ex, w')"
      by blast
    from first Inr p(2) have "run_steps run pName targetDir pPath (s # pre) state w = (Inr st2, w2)"
      by (simp add: and_then_def)
    with p(1,3) have "s # ss = (s # pre) @ t # post
        \<and> run_steps run pName targetDir pPath (s # pre) state w = (Inr st2, w2)
        \<and> run_step run pName targetDir pPath t st2 w2 = (Inl ex, w')"
      by simp
    then show ?thesis by blast
  qed
qed

lemma run_step_emits_any:
  assumes "run_step run pName targetDir pPath s state w = (x, w')"
  shows "emits (\<lambda>e. True) w w'"
  by (rule emits_mono [OF run_step_spec(1) [OF assms]]) simp

lemma run_steps_emits_any:
  assumes "run_steps run pName targetDir pPath ss state w = (x, w')"
  shows "emits (\<lambda>e. True) w w'"
  using assms
proof (induction ss arbitrary: state w)
  case Nil
  then show ?case by (simp add: emits_refl)
next
  case (Cons s ss)
  obtain y w1 where first: "run_step run pName targetDir pPath s state w = (y, w1)"
    by (cases "run_step run pName targetDir pPath s state w")
  show ?case
  proof (cases y)
    case (Inl ex1)
    with first Cons.prems have "w' = w1" by (simp add: and_then_def)
    with run_step_emits_any [OF first] show ?thesis by simp
  next
    case (Inr st1)
    with first Cons.prems have "run_steps run pName targetDir pPath ss st1 w1 = (x, w')"
      by (simp add: and_then_def)
    from emits_trans [OF run_step_emits_any [OF first] Cons.IH [OF this]] show ?thesis .
  qed
qed



text \<open>
  A run of the five blocks that ends the process with a summary: the step that failed, the
  steps before it done, and what its block did about the project directory.
\<close>

lemma run_steps_failed_exit:
  assumes run: "run_steps run pName targetDir pPath all_steps state w = (Inl (Exit c (Some st)), w')"
  shows "\<exists>pre s post st1 w1. all_steps = pre @ s # post
      \<and> run_steps run pName targetDir pPath pre state w = (Inr st1, w1)
      \<and> run_step run pName targetDir pPath s st1 w1 = (Inl (Exit c (Some st)), w')
      \<and> (\<forall>k\<in>set pre. get_step k (steps st) = Done)
      \<and> get_step s (steps st) = Failed
      \<and> freshCreation st1 = freshCreation st
      \<and> new_events w w' = new_events w w1 @ new_events w1 w'"
proof -
  from run_steps_exit [OF run] obtain pre s post st1 w1 where
    sp: "all_steps = pre @ s # post"
    and rp: "run_steps run pName targetDir pPath pre state w = (Inr st1, w1)"
    and rs: "run_step run pName targetDir pPath s st1 w1 = (Inl (Exit c (Some st)), w')"
    by blast
  have "distinct all_steps" by (simp add: all_steps_def)
  then have "distinct (pre @ s # post)" by (simp only: sp)
  then have d: "distinct pre" "s \<notin> set pre" by simp_all
  from run_steps_spec [OF rp d(1)] have done1: "\<forall>k\<in>set pre. get_step k (steps st1) = Done"
    by simp
  note f = run_step_failed_exit [OF rs]
  have "\<forall>k\<in>set pre. get_step k (steps st) = Done"
  proof
    fix k assume k: "k \<in> set pre"
    with d(2) have "k \<noteq> s" by auto
    from f(4) [OF this] done1 k show "get_step k (steps st) = Done" by simp
  qed
  moreover from emits_new_events_trans [OF run_steps_emits_any [OF rp] run_step_emits_any [OF rs]]
  have "new_events w w' = new_events w w1 @ new_events w1 w'" .
  ultimately show ?thesis using sp rp rs f(3,5) by blast
qed








section \<open>Cleanup of the project directory\<close>

lemma cleanup_removes: "fs (cleanup pPath w) pPath = None"
  by (simp add: cleanup_def rmSync_def emit_def existsSync_def)

lemma chain_event_rm:
  "chain_event pPath tbl fresh ss (EvRm p) \<Longrightarrow>
   get_step ViteCreate tbl \<noteq> Done \<or> fresh"
  by (auto simp: chain_event_def step_effect_def list_ex_iff)

text \<open>
  The part of C7 that the code keeps. A failing bootstrap step leaves no project directory.
  A run resumed from a checkpoint that records the bootstrap step as done never removes the
  project directory, whichever later step fails.
\<close>

lemma bootstrap_failure_removes_directory:
  assumes "get_step ViteCreate (steps state) \<noteq> Done"
    and "step_viteCreate run pName targetDir pPath state w = (Inl (Exit c (Some st)), w')"
  shows "fs w' pPath = None"
  using assms
proof (cases rule: step_viteCreate_cases)
  case (interrupt sg w1)
  from interrupted_exit [OF interrupt(2)] show ?thesis by simp
next
  case (failed m w1)
  then show ?thesis by (simp add: cleanup_removes)
next
  case (completed_unsaved w1 e st1)
  then show ?thesis by (simp add: uncaught_def)
next
  case (completed w1 st1)
  then show ?thesis by simp
qed

lemma resumed_run_keeps_directory:
  assumes "existingState (validateInputs a w) = Some st"
    and "valid (validateInputs a w)"
    and "get_step ViteCreate (steps st) = Done"
    and "main run a w = (ex, w')"
  shows "\<forall>p. EvRm p \<notin> set (new_events w w')"
proof -
  let ?v = "validateInputs a w"
  let ?pp = "v_projectPath ?v"
  let ?st0 = "st\<lparr>freshCreation := False\<rparr>"
  have st0: "initial_state a ?v w = ?st0"
    using assms(1) by (simp add: initial_state_def)
  from assms(2,4) st0
  have run: "pipeline run (cli_projectName a) (cli_targetDir a) ?pp ?st0 w = (ex, w')"
    by (simp add: main_def Let_def)
  have ckpt: "(\<forall>k. get_step k (steps ?st0) = Done) \<longrightarrow> fs w (stateFilePath ?pp) \<noteq> Some Dir"
    using existing_state_on_disk [OF assms(1)] by simp
  from emitsD [OF pipeline_spec(5) [OF run ckpt]]
  have "list_all (\<lambda>e. chain_event ?pp (steps ?st0) (freshCreation ?st0) all_steps e
                \<or> e = EvUnlink (stateFilePath ?pp)) (new_events w w')"
    by simp
  moreover have "e \<noteq> EvRm p"
    if "chain_event ?pp (steps ?st0) (freshCreation ?st0) all_steps e
                \<or> e = EvUnlink (stateFilePath ?pp)" for e p
    using that assms(3) chain_event_rm [of ?pp "steps ?st0" "freshCreation ?st0" all_steps p]
    by auto
  ultimately show ?thesis
    by (auto simp: list_all_iff)
qed

text \<open>
  C7 fails on the code. A fresh run is interrupted during the bootstrap command, after the
  command has created the project directory, and the handler saves a checkpoint with the
  bootstrap step pending. The same invocation is run again: it resumes from the checkpoint,
  so \<open>freshCreation\<close> is false; the bootstrap command fails; the block of the bootstrap step
  calls \<open>cleanup\<close> without consulting \<open>freshCreation\<close>, and the project directory that
  existed before this run is removed.
\<close>

theorem resumed_bootstrap_failure_deletes_directory:
  "fs w_bootstrap_interrupted ''/w/app'' = Some Dir
   \<and> valid (validateInputs args_minimal w_bootstrap_interrupted)
   \<and> map_option (\<lambda>s. get_step ViteCreate (steps s))
        (existingState (validateInputs args_minimal w_bootstrap_interrupted)) = Some Pending
   \<and> freshCreation (initial_state args_minimal
        (validateInputs args_minimal w_bootstrap_interrupted) w_bootstrap_interrupted) = False
   \<and> exit_code (fst (main (sim all_fail) args_minimal w_bootstrap_interrupted)) = 1
   \<and> last (trace (snd (main (sim all_fail) args_minimal w_bootstrap_interrupted))) = EvRm ''/w/app''
   \<and> fs (snd (main (sim all_fail) args_minimal w_bootstrap_interrupted)) ''/w/app'' = None"
  by code_simp

end
